theory Spec2Isabelle
  imports Complex_Main "HOL-Library.Multiset" "HOL-Library.Log_Nat"
begin

section \<open>SQL values and three-valued logic\<close>

text \<open>
  The schema lives in the migration
  \<^verbatim>\<open>supabase/migrations/20251018035712_add_missing_product_and_color_columns.sql\<close>
  and in the later migration "Fix Sales Records Trigger Issue". A nullable column is an
  \<open>option\<close> (\<open>None\<close> is SQL NULL). A comparison with NULL is unknown, so a
  truth value is a \<open>bool option\<close>; an \<^verbatim>\<open>IF\<close> or a \<^verbatim>\<open>WHERE\<close> runs only on
  \<open>Some True\<close>, while a \<^verbatim>\<open>CHECK\<close> constraint rejects only \<open>Some False\<close>.

  A UUID is a natural number, a timestamp a natural number, and a \<^verbatim>\<open>DECIMAL(10, 2)\<close>
  is the integer count of its hundredths (so \<open>12.50\<close> is \<open>1250\<close>).
\<close>

type_synonym uuid = nat
type_synonym timestamp = nat
type_synonym decimal = int

definition sql_eq :: "'a option \<Rightarrow> 'a option \<Rightarrow> bool option" where
  "sql_eq a b =
     (case a of None \<Rightarrow> None
      | Some x \<Rightarrow> (case b of None \<Rightarrow> None | Some y \<Rightarrow> Some (x = y)))"

definition sql_and :: "bool option \<Rightarrow> bool option \<Rightarrow> bool option" where
  "sql_and a b =
     (if a = Some False then Some False
      else if b = Some False then Some False
      else if a = Some True \<and> b = Some True then Some True
      else None)"

definition sql_or :: "bool option \<Rightarrow> bool option \<Rightarrow> bool option" where
  "sql_or a b =
     (if a = Some True then Some True
      else if b = Some True then Some True
      else if a = Some False \<and> b = Some False then Some False
      else None)"

definition is_true :: "bool option \<Rightarrow> bool" where
  "is_true b = (b = Some True)"

text \<open>\<^verbatim>\<open>a IS DISTINCT FROM b\<close> treats NULL as an ordinary value.\<close>

definition is_distinct_from :: "'a option \<Rightarrow> 'a option \<Rightarrow> bool" where
  "is_distinct_from a b = (a \<noteq> b)"

datatype pg_error =
    Check_violation
  | Unique_violation
  | Not_null_violation
  | Numeric_field_overflow
  | Integer_out_of_range

text \<open>A value fits \<^verbatim>\<open>DECIMAL(10, 2)\<close> when its absolute value is below \<open>10^8\<close>.\<close>

definition fits_decimal :: "decimal \<Rightarrow> bool" where
  "fits_decimal v = (\<bar>v\<bar> < 10000000000)"

section \<open>Tables\<close>

text \<open>
  Only the columns that the triggers, the constraints and the three report pages read
  are kept. \<open>products\<close> is keyed by its primary key. The generated \<open>id\<close> and
  \<open>created_at\<close> of \<open>invoice_items\<close> and \<open>sales_records\<close> are left out: a table is
  a list of rows, so equal rows stay separate rows.
\<close>

record product =
  p_name :: string
  p_price_inr :: decimal
  p_cost_inr :: "decimal option"
  p_quantity_in_stock :: int

record invoice =
  inv_id :: uuid
  invoice_number :: string
  payment_status :: "string option"
  created_at :: "timestamp option"

record invoice_item =
  ii_invoice_id :: uuid
  ii_product_id :: "uuid option"
  ii_product_name :: string
  ii_size_name :: "string option"
  ii_color_name :: "string option"
  ii_quantity :: int
  ii_unit_price :: decimal
  ii_total_price :: decimal

record sales_record =
  sr_invoice_id :: "uuid option"
  sr_invoice_number :: string
  sr_product_id :: "uuid option"
  sr_product_name :: string
  sr_size_name :: "string option"
  sr_color_name :: "string option"
  sr_quantity :: int
  sr_unit_price :: decimal
  sr_total_price :: decimal
  sr_cost_per_unit :: "decimal option"
  sr_profit_per_unit :: "decimal option"
  sr_total_profit :: "decimal option"
  sr_sale_date :: timestamp

record database =
  products :: "uuid \<rightharpoonup> product"
  invoices :: "invoice list"
  invoice_items :: "invoice_item list"
  sales_records :: "sales_record list"

text \<open>
  \<^verbatim>\<open>payment_status TEXT DEFAULT 'done' CHECK (payment_status IN ('done', 'pending'))\<close>:
  the column has no \<^verbatim>\<open>NOT NULL\<close>, and \<^verbatim>\<open>x IN (a, b)\<close> is \<^verbatim>\<open>x = a OR x = b\<close>.
\<close>

definition check_payment_status :: "string option \<Rightarrow> bool" where
  "check_payment_status v =
     (sql_or (sql_eq v (Some ''done'')) (sql_eq v (Some ''pending'')) \<noteq> Some False)"

section \<open>The sales-record triggers\<close>

text \<open>
  \<^verbatim>\<open>FROM invoice_items ii LEFT JOIN products p ON ii.product_id = p.id\<close>, then
  \<^verbatim>\<open>p.cost_inr\<close>: NULL when the item has no product, the product is gone, or its cost
  is NULL.
\<close>

definition joined_cost :: "database \<Rightarrow> invoice_item \<Rightarrow> decimal option" where
  "joined_cost db ii =
     (case ii_product_id ii of
        None \<Rightarrow> None
      | Some pid \<Rightarrow> (case products db pid of None \<Rightarrow> None | Some p \<Rightarrow> p_cost_inr p))"

text \<open>
  One row of the \<^verbatim>\<open>SELECT\<close> list of both trigger functions. \<^verbatim>\<open>COALESCE(x, y)\<close> is
  \<open>y\<close> when \<open>x\<close> is NULL, and \<open>x\<close> is NULL exactly when the joined cost is. The
  row is refused when a computed profit does not fit its column, and then when
  \<open>sale_date\<close> (\<^verbatim>\<open>NOT NULL\<close>) would be NULL.
\<close>

definition sales_row :: "invoice \<Rightarrow> invoice_item \<Rightarrow> decimal option \<Rightarrow> pg_error + sales_record" where
  "sales_row new ii cost =
     (let cpu = (case cost of None \<Rightarrow> 0 | Some c \<Rightarrow> c);
          ppu = (case cost of None \<Rightarrow> ii_unit_price ii | Some c \<Rightarrow> ii_unit_price ii - c);
          tp = (case cost of None \<Rightarrow> ii_total_price ii
                | Some c \<Rightarrow> (ii_unit_price ii - c) * ii_quantity ii)
      in if \<not> (fits_decimal ppu \<and> fits_decimal tp) then Inl Numeric_field_overflow
         else case created_at new of
                None \<Rightarrow> Inl Not_null_violation
              | Some t \<Rightarrow>
                  Inr \<lparr>sr_invoice_id = Some (inv_id new),
                       sr_invoice_number = invoice_number new,
                       sr_product_id = ii_product_id ii,
                       sr_product_name = ii_product_name ii,
                       sr_size_name = ii_size_name ii,
                       sr_color_name = ii_color_name ii,
                       sr_quantity = ii_quantity ii,
                       sr_unit_price = ii_unit_price ii,
                       sr_total_price = ii_total_price ii,
                       sr_cost_per_unit = Some cpu,
                       sr_profit_per_unit = Some ppu,
                       sr_total_profit = Some tp,
                       sr_sale_date = t\<rparr>)"

fun select_rows :: "database \<Rightarrow> invoice \<Rightarrow> invoice_item list \<Rightarrow> pg_error + sales_record list" where
  "select_rows db new [] = Inr []"
| "select_rows db new (ii # iis) =
     (case sales_row new ii (joined_cost db ii) of
        Inl e \<Rightarrow> Inl e
      | Inr r \<Rightarrow> (case select_rows db new iis of Inl e \<Rightarrow> Inl e | Inr rs \<Rightarrow> Inr (r # rs)))"

text \<open>\<^verbatim>\<open>WHERE ii.invoice_id = NEW.id\<close>.\<close>

definition items_of :: "database \<Rightarrow> uuid \<Rightarrow> invoice_item list" where
  "items_of db i = filter (\<lambda>ii. ii_invoice_id ii = i) (invoice_items db)"

text \<open>
  The \<^verbatim>\<open>SELECT\<close> has no \<^verbatim>\<open>ORDER BY\<close>, so SQL fixes no order for its rows: the
  executor yields the joined rows in an order of its own. That order is the parameter
  \<open>plan\<close>, a rearrangement of the selected items; whatever is stated below holds for
  every such \<open>plan\<close>.
\<close>

type_synonym row_order = "invoice_item list \<Rightarrow> invoice_item list"

definition row_order :: "row_order \<Rightarrow> bool" where
  "row_order plan = (\<forall>xs. mset (plan xs) = mset xs)"

text \<open>
  The \<^verbatim>\<open>INSERT INTO public.sales_records (...) SELECT ...\<close> statement that both trigger
  functions contain. One failing row fails the statement (with the error of the first
  failing row in the order of the plan).
\<close>

definition insert_sales_records :: "row_order \<Rightarrow> database \<Rightarrow> invoice \<Rightarrow> pg_error + database" where
  "insert_sales_records plan db new =
     (case select_rows db new (plan (items_of db (inv_id new))) of
        Inl e \<Rightarrow> Inl e
      | Inr rs \<Rightarrow> Inr (db\<lparr>sales_records := sales_records db @ rs\<rparr>))"

text \<open>
  The trigger function of the former \<^verbatim>\<open>AFTER INSERT\<close> trigger. The later migration drops
  the trigger and keeps the function.
\<close>

definition create_sales_records_on_invoice ::
  "row_order \<Rightarrow> database \<Rightarrow> invoice \<Rightarrow> pg_error + database" where
  "create_sales_records_on_invoice plan db new =
     (if is_true (sql_eq (payment_status new) (Some ''done''))
      then insert_sales_records plan db new
      else Inr db)"

text \<open>\<^verbatim>\<open>DELETE FROM public.sales_records WHERE invoice_id = NEW.id\<close>.\<close>

definition delete_sales_records :: "database \<Rightarrow> uuid \<Rightarrow> database" where
  "delete_sales_records db i =
     db\<lparr>sales_records :=
          filter (\<lambda>r. \<not> is_true (sql_eq (sr_invoice_id r) (Some i))) (sales_records db)\<rparr>"

definition manage_sales_records_on_invoice_update ::
  "row_order \<Rightarrow> database \<Rightarrow> invoice \<Rightarrow> invoice \<Rightarrow> pg_error + database" where
  "manage_sales_records_on_invoice_update plan db old new =
     (case (if is_true (sql_and (sql_eq (payment_status old) (Some ''pending''))
                                (sql_eq (payment_status new) (Some ''done'')))
            then insert_sales_records plan db new
            else Inr db) of
        Inl e \<Rightarrow> Inl e
      | Inr db1 \<Rightarrow>
          Inr (if is_true (sql_and (sql_eq (payment_status old) (Some ''done''))
                                   (sql_eq (payment_status new) (Some ''pending'')))
               then delete_sales_records db1 (inv_id new)
               else db1))"

text \<open>
  \<^verbatim>\<open>UPDATE invoices SET payment_status = v WHERE id = i\<close>. \<open>id\<close> is the primary key,
  so at most one row matches; with no matching row nothing happens. The new row must pass
  the \<^verbatim>\<open>CHECK\<close>. The trigger \<^verbatim>\<open>manage_sales_on_invoice_update\<close> is
  \<^verbatim>\<open>AFTER UPDATE ... FOR EACH ROW WHEN (OLD.payment_status IS DISTINCT FROM NEW.payment_status)\<close>.
  An error raised by the trigger aborts the statement: no new state is returned.
  \<open>set_status\<close> is the change of the row alone.
\<close>

definition set_status :: "database \<Rightarrow> uuid \<Rightarrow> string option \<Rightarrow> database" where
  "set_status db i v =
     db\<lparr>invoices :=
          map (\<lambda>r. if inv_id r = i then r\<lparr>payment_status := v\<rparr> else r) (invoices db)\<rparr>"

definition update_payment_status ::
  "row_order \<Rightarrow> database \<Rightarrow> uuid \<Rightarrow> string option \<Rightarrow> pg_error + database" where
  "update_payment_status plan db i v =
     (case find (\<lambda>r. inv_id r = i) (invoices db) of
        None \<Rightarrow> Inr db
      | Some old \<Rightarrow>
          if \<not> check_payment_status v then Inl Check_violation
          else if is_distinct_from (payment_status old) v
          then manage_sales_records_on_invoice_update plan (set_status db i v) old
                 (old\<lparr>payment_status := v\<rparr>)
          else Inr (set_status db i v))"

text \<open>
  \<^verbatim>\<open>DELETE FROM invoices WHERE id = i\<close>, with the foreign keys
  \<^verbatim>\<open>invoice_items.invoice_id ... ON DELETE CASCADE\<close> and
  \<^verbatim>\<open>sales_records.invoice_id ... ON DELETE SET NULL\<close>. No trigger listens to a delete.
\<close>

definition delete_invoice :: "database \<Rightarrow> uuid \<Rightarrow> database" where
  "delete_invoice db i =
     (if i \<in> inv_id ` set (invoices db) then
        db\<lparr>invoices := filter (\<lambda>r. inv_id r \<noteq> i) (invoices db),
           invoice_items := filter (\<lambda>ii. ii_invoice_id ii \<noteq> i) (invoice_items db),
           sales_records :=
             map (\<lambda>r. if sr_invoice_id r = Some i then r\<lparr>sr_invoice_id := None\<rparr> else r)
               (sales_records db)\<rparr>
      else db)"

section \<open>Invoice numbers\<close>

definition is_digit :: "char \<Rightarrow> bool" where
  "is_digit c = (c \<in> set ''0123456789'')"

text \<open>
  \<^verbatim>\<open>SUBSTRING(s FROM 'INV-([0-9]+)')\<close>: the digits captured by the leftmost match of the
  unanchored pattern, the digit run taken as long as it goes; NULL when nothing matches.
  \<^verbatim>\<open>s ~ 'INV-[0-9]+'\<close> holds exactly when there is such a match.
\<close>

fun substring_inv :: "string \<Rightarrow> string option" where
  "substring_inv [] = None"
| "substring_inv (c # cs) =
     (if take 4 (c # cs) = ''INV-'' \<and> takeWhile is_digit (drop 4 (c # cs)) \<noteq> []
      then Some (takeWhile is_digit (drop 4 (c # cs)))
      else substring_inv cs)"

text \<open>The value of a decimal digit is its place in the digit string.\<close>

definition digit_value :: "char \<Rightarrow> nat" where
  "digit_value c = length (takeWhile (\<lambda>d. d \<noteq> c) ''0123456789'')"

definition nat_of_digits :: "string \<Rightarrow> nat" where
  "nat_of_digits ds = foldl (\<lambda>n c. 10 * n + digit_value c) 0 ds"

text \<open>\<^verbatim>\<open>CAST(... AS INTEGER)\<close>: a 32-bit signed integer, an error beyond it.\<close>

definition cast_integer :: "string \<Rightarrow> pg_error + nat" where
  "cast_integer ds =
     (if nat_of_digits ds \<le> 2147483647 then Inr (nat_of_digits ds) else Inl Integer_out_of_range)"

fun cast_all :: "string list \<Rightarrow> pg_error + nat list" where
  "cast_all [] = Inr []"
| "cast_all (ds # dss) =
     (case cast_integer ds of
        Inl e \<Rightarrow> Inl e
      | Inr n \<Rightarrow> (case cast_all dss of Inl e \<Rightarrow> Inl e | Inr ns \<Rightarrow> Inr (n # ns)))"

text \<open>
  \<^verbatim>\<open>SELECT COALESCE(MAX(CAST(SUBSTRING(...) AS INTEGER)), 0) + 1 INTO next_number
  FROM invoices WHERE invoice_number ~ 'INV-[0-9]+'\<close>. The values are not negative, so
  the maximum with 0 folded in is \<^verbatim>\<open>COALESCE(MAX(...), 0)\<close>.
\<close>

definition next_number :: "invoice list \<Rightarrow> pg_error + nat" where
  "next_number invs =
     (case cast_all (List.map_filter substring_inv (map invoice_number invs)) of
        Inl e \<Rightarrow> Inl e
      | Inr ns \<Rightarrow>
          if foldr max ns 0 + 1 \<le> 2147483647 then Inr (foldr max ns 0 + 1)
          else Inl Integer_out_of_range)"

text \<open>\<^verbatim>\<open>next_number::TEXT\<close>.\<close>

definition digit_char :: "nat \<Rightarrow> char" where
  "digit_char d = ''0123456789'' ! d"

fun text_of_nat :: "nat \<Rightarrow> string" where
  "text_of_nat n =
     (if n < 10 then [digit_char n] else text_of_nat (n div 10) @ [digit_char (n mod 10)])"

text \<open>
  \<^verbatim>\<open>LPAD(s, n, fill)\<close> fills on the left up to length \<open>n\<close>; a string already longer
  than \<open>n\<close> is cut to its first \<open>n\<close> characters.
\<close>

definition lpad :: "string \<Rightarrow> nat \<Rightarrow> char \<Rightarrow> string" where
  "lpad s n c = (if n \<le> length s then take n s else replicate (n - length s) c @ s)"

text \<open>
  The trigger function of \<^verbatim>\<open>set_invoice_number\<close> (\<^verbatim>\<open>BEFORE INSERT ... FOR EACH ROW\<close>):
  its result is \<^verbatim>\<open>NEW.invoice_number\<close> as the row is then stored.
\<close>

definition generate_invoice_number :: "invoice list \<Rightarrow> string option \<Rightarrow> pg_error + string" where
  "generate_invoice_number invs new_number =
     (case new_number of
        None \<Rightarrow>
          (case next_number invs of
             Inl e \<Rightarrow> Inl e
           | Inr n \<Rightarrow> Inr (''INV-'' @ lpad (text_of_nat n) 6 (CHR ''0'')))
      | Some s \<Rightarrow>
          if s = '''' then
            (case next_number invs of
               Inl e \<Rightarrow> Inl e
             | Inr n \<Rightarrow> Inr (''INV-'' @ lpad (text_of_nat n) 6 (CHR ''0'')))
          else Inr s)"

text \<open>
  What an \<^verbatim>\<open>INSERT\<close> says about a column: nothing (the column default applies), or a
  value, which may be NULL.
\<close>

datatype 'a column_value = Omitted | Given "'a option"

record invoice_input =
  in_id :: uuid
  in_invoice_number :: "string option"
  in_payment_status :: "string column_value"
  in_created_at :: "timestamp column_value"

text \<open>
  \<^verbatim>\<open>INSERT INTO invoices\<close> of one row at time \<open>now\<close>. \<open>in_id\<close> is the given or
  generated primary key. Column defaults are filled in, the \<^verbatim>\<open>BEFORE INSERT\<close> trigger
  sets the number, then the \<^verbatim>\<open>CHECK\<close>, the primary key and the \<^verbatim>\<open>UNIQUE\<close>
  constraint on \<open>invoice_number\<close> are enforced. After the later migration no
  \<^verbatim>\<open>AFTER INSERT\<close> trigger is left, so no sales record is written here.
\<close>

definition insert_invoice :: "database \<Rightarrow> timestamp \<Rightarrow> invoice_input \<Rightarrow> pg_error + database" where
  "insert_invoice db now inp =
     (case generate_invoice_number (invoices db) (in_invoice_number inp) of
        Inl e \<Rightarrow> Inl e
      | Inr num \<Rightarrow>
          let st = (case in_payment_status inp of Omitted \<Rightarrow> Some ''done'' | Given v \<Rightarrow> v);
              ts = (case in_created_at inp of Omitted \<Rightarrow> Some now | Given v \<Rightarrow> v)
          in if \<not> check_payment_status st then Inl Check_violation
             else if in_id inp \<in> inv_id ` set (invoices db) then Inl Unique_violation
             else if num \<in> invoice_number ` set (invoices db) then Inl Unique_violation
             else Inr (db\<lparr>invoices := invoices db @
                         [\<lparr>inv_id = in_id inp, invoice_number = num,
                           payment_status = st, created_at = ts\<rparr>]\<rparr>))"



definition empty_database :: database where
  "empty_database = \<lparr>products = Map.empty, invoices = [], invoice_items = [], sales_records = []\<rparr>"

section \<open>JavaScript numbers\<close>

text \<open>
  A JavaScript number is an IEEE 754 double: a finite value, one of the two zeros, an
  infinity, or NaN. A finite value is modelled by the rational it denotes, \<open>Num 0\<close> is
  \<^verbatim>\<open>+0\<close> and \<open>Neg_zero\<close> is \<^verbatim>\<open>-0\<close>. Every operation computes the exact rational result
  and rounds it to the nearest double, ties to the even significand.
\<close>

datatype js_number = Num rat | Neg_zero | Pos_infinity | Neg_infinity | Not_a_number

definition pow2 :: "int \<Rightarrow> rat" where
  "pow2 e = (if 0 \<le> e then 2 ^ nat e else 1 / 2 ^ nat (- e))"

text \<open>The exponent \<open>e\<close> of a positive rational: \<open>2 ^ e \<le> a < 2 ^ (e + 1)\<close>.\<close>

definition binary_exponent :: "rat \<Rightarrow> int" where
  "binary_exponent a =
     (let e0 = (if 1 \<le> a then bitlen \<lfloor>a\<rfloor> - 1 else - bitlen \<lfloor>1 / a\<rfloor>)
      in if pow2 (e0 + 1) \<le> a then e0 + 1 else e0)"

definition round_half_even :: "rat \<Rightarrow> int" where
  "round_half_even y =
     (if y - of_int \<lfloor>y\<rfloor> < 1 / 2 then \<lfloor>y\<rfloor>
      else if 1 / 2 < y - of_int \<lfloor>y\<rfloor> then \<lfloor>y\<rfloor> + 1
      else if even \<lfloor>y\<rfloor> then \<lfloor>y\<rfloor> else \<lfloor>y\<rfloor> + 1)"

text \<open>
  The spacing of the doubles about a positive rational: 52 binary places below its
  exponent, and \<open>2 ^ - 1074\<close> below the smallest normal exponent \<open>- 1022\<close>.
  \<open>double_magnitude\<close> rounds to a multiple of it.
\<close>

definition ulp :: "rat \<Rightarrow> rat" where
  "ulp a = pow2 (max (binary_exponent a) (- 1022) - 52)"

definition double_magnitude :: "rat \<Rightarrow> rat" where
  "double_magnitude a = of_int (round_half_even (a / ulp a)) * ulp a"

definition to_double :: "rat \<Rightarrow> js_number" where
  "to_double x =
     (if x = 0 then Num 0
      else if pow2 1024 \<le> double_magnitude \<bar>x\<bar>
      then (if 0 < x then Pos_infinity else Neg_infinity)
      else if double_magnitude \<bar>x\<bar> = 0
      then (if 0 < x then Num 0 else Neg_zero)
      else Num (if 0 < x then double_magnitude \<bar>x\<bar> else - double_magnitude \<bar>x\<bar>))"

fun finite_value :: "js_number \<Rightarrow> rat option" where
  "finite_value (Num a) = Some a"
| "finite_value Neg_zero = Some 0"
| "finite_value Pos_infinity = None"
| "finite_value Neg_infinity = None"
| "finite_value Not_a_number = None"

fun sign_bit :: "js_number \<Rightarrow> bool" where
  "sign_bit (Num a) = (a < 0)"
| "sign_bit Neg_zero = True"
| "sign_bit Pos_infinity = False"
| "sign_bit Neg_infinity = True"
| "sign_bit Not_a_number = False"

definition zero_of_sign :: "bool \<Rightarrow> js_number" where
  "zero_of_sign negative = (if negative then Neg_zero else Num 0)"

definition infinity_of_sign :: "bool \<Rightarrow> js_number" where
  "infinity_of_sign negative = (if negative then Neg_infinity else Pos_infinity)"

text \<open>
  \<^verbatim>\<open>x + y\<close>. An exact sum of zero is \<^verbatim>\<open>+0\<close> unless both operands are \<^verbatim>\<open>-0\<close>;
  the sum of the two infinities is NaN.
\<close>

definition js_add :: "js_number \<Rightarrow> js_number \<Rightarrow> js_number" where
  "js_add x y =
     (if x = Not_a_number \<or> y = Not_a_number then Not_a_number
      else case (finite_value x, finite_value y) of
             (Some a, Some b) \<Rightarrow>
               if a + b = 0 then zero_of_sign (sign_bit x \<and> sign_bit y) else to_double (a + b)
           | (Some a, None) \<Rightarrow> y
           | (None, Some b) \<Rightarrow> x
           | (None, None) \<Rightarrow> if x = y then x else Not_a_number)"

fun js_neg :: "js_number \<Rightarrow> js_number" where
  "js_neg (Num a) = (if a = 0 then Neg_zero else Num (- a))"
| "js_neg Neg_zero = Num 0"
| "js_neg Pos_infinity = Neg_infinity"
| "js_neg Neg_infinity = Pos_infinity"
| "js_neg Not_a_number = Not_a_number"

text \<open>\<^verbatim>\<open>x - y\<close> is \<^verbatim>\<open>x + (-y)\<close>.\<close>

definition js_sub :: "js_number \<Rightarrow> js_number \<Rightarrow> js_number" where
  "js_sub x y = js_add x (js_neg y)"

text \<open>\<^verbatim>\<open>x * y\<close>: the sign of a zero or an infinity is the product of the signs.\<close>

definition js_mul :: "js_number \<Rightarrow> js_number \<Rightarrow> js_number" where
  "js_mul x y =
     (if x = Not_a_number \<or> y = Not_a_number then Not_a_number
      else case (finite_value x, finite_value y) of
             (Some a, Some b) \<Rightarrow>
               if a * b = 0 then zero_of_sign (sign_bit x \<noteq> sign_bit y) else to_double (a * b)
           | (Some a, None) \<Rightarrow>
               if a = 0 then Not_a_number else infinity_of_sign (sign_bit x \<noteq> sign_bit y)
           | (None, Some b) \<Rightarrow>
               if b = 0 then Not_a_number else infinity_of_sign (sign_bit x \<noteq> sign_bit y)
           | (None, None) \<Rightarrow> infinity_of_sign (sign_bit x \<noteq> sign_bit y))"

text \<open>
  \<^verbatim>\<open>x / y\<close> raises nothing: a zero divided by a zero and an infinity divided by an
  infinity are NaN, anything else divided by a zero is an infinity.
\<close>

definition js_div :: "js_number \<Rightarrow> js_number \<Rightarrow> js_number" where
  "js_div x y =
     (if x = Not_a_number \<or> y = Not_a_number then Not_a_number
      else case (finite_value x, finite_value y) of
             (Some a, Some b) \<Rightarrow>
               if b = 0
               then (if a = 0 then Not_a_number else infinity_of_sign (sign_bit x \<noteq> sign_bit y))
               else if a = 0 then zero_of_sign (sign_bit x \<noteq> sign_bit y)
               else to_double (a / b)
           | (Some a, None) \<Rightarrow> zero_of_sign (sign_bit x \<noteq> sign_bit y)
           | (None, Some b) \<Rightarrow> infinity_of_sign (sign_bit x \<noteq> sign_bit y)
           | (None, None) \<Rightarrow> Not_a_number)"

text \<open>\<^verbatim>\<open>x > 0\<close> and \<^verbatim>\<open>x <= y\<close>: false on NaN, and the two zeros are equal.\<close>

fun js_positive :: "js_number \<Rightarrow> bool" where
  "js_positive (Num a) = (0 < a)"
| "js_positive Neg_zero = False"
| "js_positive Pos_infinity = True"
| "js_positive Neg_infinity = False"
| "js_positive Not_a_number = False"

definition js_le :: "js_number \<Rightarrow> js_number \<Rightarrow> bool" where
  "js_le x y =
     (if x = Not_a_number \<or> y = Not_a_number then False
      else case (finite_value x, finite_value y) of
             (Some a, Some b) \<Rightarrow> a \<le> b
           | (Some a, None) \<Rightarrow> y = Pos_infinity
           | (None, Some b) \<Rightarrow> x = Neg_infinity
           | (None, None) \<Rightarrow> x = Neg_infinity \<or> y = Pos_infinity)"

text \<open>
  The numbers of a response: a \<^verbatim>\<open>DECIMAL(10, 2)\<close> column arrives as the double nearest
  to the decimal it denotes, an \<^verbatim>\<open>INTEGER\<close> column as the double nearest to the integer,
  and \<^verbatim>\<open>Number(null)\<close> is 0.
\<close>

definition Number_decimal :: "decimal \<Rightarrow> js_number" where
  "Number_decimal d = to_double (of_int d / 100)"

definition Number_nullable :: "decimal option \<Rightarrow> js_number" where
  "Number_nullable d = (case d of None \<Rightarrow> Num 0 | Some x \<Rightarrow> Number_decimal x)"

definition Number_integer :: "int \<Rightarrow> js_number" where
  "Number_integer n = to_double (of_int n)"

text \<open>
  \<^verbatim>\<open>xs.sort((a, b) => b.k - a.k)\<close>. The comparator puts \<open>a\<close> after \<open>b\<close> when
  \<^verbatim>\<open>b.k - a.k\<close> is positive, and a NaN of the comparator counts as 0. The sort is stable:
  each element, from the last to the first, goes into the sorted rest in front of the
  first element that it does not come after.
\<close>

fun insert_descending :: "('a \<Rightarrow> js_number) \<Rightarrow> 'a \<Rightarrow> 'a list \<Rightarrow> 'a list" where
  "insert_descending k a [] = [a]"
| "insert_descending k a (b # bs) =
     (if js_positive (js_sub (k b) (k a)) then b # insert_descending k a bs else a # b # bs)"

definition sort_descending :: "('a \<Rightarrow> js_number) \<Rightarrow> 'a list \<Rightarrow> 'a list" where
  "sort_descending k xs = foldr (insert_descending k) xs []"

section \<open>The report pages\<close>

text \<open>
  The pages read \<open>sales_records\<close> and aggregate in the browser. \<open>rows\<close> is the table in
  the order in which the query returns its rows (the queries have no \<^verbatim>\<open>ORDER BY\<close>).
\<close>

text \<open>\<^verbatim>\<open>.gte("sale_date", startDate).lte("sale_date", endDate)\<close>.\<close>

definition select_range :: "timestamp \<Rightarrow> timestamp \<Rightarrow> sales_record list \<Rightarrow> sales_record list" where
  "select_range startDate endDate rows =
     filter (\<lambda>r. startDate \<le> sr_sale_date r \<and> sr_sale_date r \<le> endDate) rows"

text \<open>
  A JavaScript object whose keys are no array indices (here a UUID, or "null" for a
  missing product id), or a \<^verbatim>\<open>Map\<close>, keeps its entries in the order the keys were
  first set. \<open>upsert k init f\<close> is "create the entry \<open>init\<close> under
  \<open>k\<close> when there is none, then change the entry by \<open>f\<close>".
\<close>

fun upsert :: "'k \<Rightarrow> 'v \<Rightarrow> ('v \<Rightarrow> 'v) \<Rightarrow> ('k \<times> 'v) list \<Rightarrow> ('k \<times> 'v) list" where
  "upsert k init f [] = [(k, f init)]"
| "upsert k init f ((k', v) # kvs) =
     (if k' = k then (k', f v) # kvs else (k', v) # upsert k init f kvs)"

subsection \<open>Profits.tsx\<close>

record product_profit =
  pp_product_id :: "uuid option"
  pp_product_name :: string
  pp_total_quantity :: js_number
  pp_total_revenue :: js_number
  pp_total_cost :: js_number
  pp_total_profit :: js_number
  pp_avg_sale_price :: js_number
  pp_avg_cost_price :: js_number

record profit_data =
  totalProfit :: js_number
  totalRevenue :: js_number
  totalCost :: js_number
  profit_products :: "product_profit list"

definition new_product_profit :: "sales_record \<Rightarrow> product_profit" where
  "new_product_profit record =
     \<lparr>pp_product_id = sr_product_id record,
      pp_product_name = sr_product_name record,
      pp_total_quantity = Num 0,
      pp_total_revenue = Num 0,
      pp_total_cost = Num 0,
      pp_total_profit = Num 0,
      pp_avg_sale_price = Num 0,
      pp_avg_cost_price = Num 0\<rparr>"

text \<open>\<^verbatim>\<open>itemCost\<close>, \<^verbatim>\<open>itemRevenue\<close> and \<^verbatim>\<open>itemProfit\<close> of a record.\<close>

definition itemCost :: "sales_record \<Rightarrow> js_number" where
  "itemCost record = js_mul (Number_nullable (sr_cost_per_unit record))
                       (Number_integer (sr_quantity record))"

definition itemRevenue :: "sales_record \<Rightarrow> js_number" where
  "itemRevenue record = Number_decimal (sr_total_price record)"

definition itemProfit :: "sales_record \<Rightarrow> js_number" where
  "itemProfit record = Number_nullable (sr_total_profit record)"

definition add_to_product_profit :: "sales_record \<Rightarrow> product_profit \<Rightarrow> product_profit" where
  "add_to_product_profit record p =
     p\<lparr>pp_total_quantity := js_add (pp_total_quantity p) (Number_integer (sr_quantity record)),
       pp_total_revenue := js_add (pp_total_revenue p) (itemRevenue record),
       pp_total_cost := js_add (pp_total_cost p) (itemCost record),
       pp_total_profit := js_add (pp_total_profit p) (itemProfit record)\<rparr>"

text \<open>The body of \<^verbatim>\<open>data.forEach\<close>, on the state (totalRevenue, totalCost, productProfits).\<close>

definition profit_forEach ::
  "sales_record \<Rightarrow> js_number \<times> js_number \<times> (uuid option \<times> product_profit) list
     \<Rightarrow> js_number \<times> js_number \<times> (uuid option \<times> product_profit) list" where
  "profit_forEach record st =
     (case st of (revenue, cost, productProfits) \<Rightarrow>
        (js_add revenue (itemRevenue record),
         js_add cost (itemCost record),
         upsert (sr_product_id record) (new_product_profit record)
           (add_to_product_profit record) productProfits))"

definition set_averages :: "product_profit \<Rightarrow> product_profit" where
  "set_averages p =
     p\<lparr>pp_avg_sale_price := js_div (pp_total_revenue p) (pp_total_quantity p),
       pp_avg_cost_price := js_div (pp_total_cost p) (pp_total_quantity p)\<rparr>"

definition getProfitData :: "timestamp \<Rightarrow> timestamp \<Rightarrow> sales_record list \<Rightarrow> profit_data" where
  "getProfitData startDate endDate rows =
     (case fold profit_forEach (select_range startDate endDate rows) (Num 0, Num 0, []) of
        (revenue, cost, productProfits) \<Rightarrow>
          \<lparr>totalProfit = js_sub revenue cost,
           totalRevenue = revenue,
           totalCost = cost,
           profit_products =
             sort_descending pp_total_profit (map (set_averages \<circ> snd) productProfits)\<rparr>)"

subsection \<open>The trending page\<close>

record product_stats =
  ps_product_id :: "uuid option"
  ps_product_name :: string
  ps_total_quantity :: js_number
  ps_total_revenue :: js_number

definition new_product_stats :: "sales_record \<Rightarrow> product_stats" where
  "new_product_stats record =
     \<lparr>ps_product_id = sr_product_id record,
      ps_product_name = sr_product_name record,
      ps_total_quantity = Num 0,
      ps_total_revenue = Num 0\<rparr>"

definition add_to_product_stats :: "sales_record \<Rightarrow> product_stats \<Rightarrow> product_stats" where
  "add_to_product_stats record p =
     p\<lparr>ps_total_quantity := js_add (ps_total_quantity p) (Number_integer (sr_quantity record)),
       ps_total_revenue := js_add (ps_total_revenue p) (Number_decimal (sr_total_price record))\<rparr>"

definition productStats :: "sales_record list \<Rightarrow> (uuid option \<times> product_stats) list" where
  "productStats data =
     fold (\<lambda>record acc. upsert (sr_product_id record) (new_product_stats record)
                          (add_to_product_stats record) acc) data []"

text \<open>\<^verbatim>\<open>return Object.values(productStats).slice(0, 20)\<close>.\<close>

definition getTrendingProducts :: "timestamp \<Rightarrow> timestamp \<Rightarrow> sales_record list \<Rightarrow> product_stats list" where
  "getTrendingProducts startDate endDate rows =
     take 20 (map snd (productStats (select_range startDate endDate rows)))"

datatype sort_by = By_quantity | By_revenue

text \<open>The rows \<^verbatim>\<open>renderTable\<close> shows, in order (none when there are no products).\<close>

definition renderTable :: "sort_by \<Rightarrow> product_stats list \<Rightarrow> product_stats list" where
  "renderTable sortBy prods =
     (if prods = [] then []
      else case sortBy of
             By_quantity \<Rightarrow> sort_descending ps_total_quantity prods
           | By_revenue \<Rightarrow> sort_descending ps_total_revenue prods)"

definition trending_view ::
  "sort_by \<Rightarrow> timestamp \<Rightarrow> timestamp \<Rightarrow> sales_record list \<Rightarrow> product_stats list" where
  "trending_view sortBy startDate endDate rows =
     renderTable sortBy (getTrendingProducts startDate endDate rows)"

subsection \<open>The product-sales card\<close>

record product_sale =
  sale_name :: string
  sale_quantity :: js_number
  sale_revenue :: js_number

text \<open>
  The query selects \<^verbatim>\<open>product_name, quantity, total_price\<close> only, and the
  \<^verbatim>\<open>Map\<close> is keyed by \<^verbatim>\<open>record.product_name\<close>.
\<close>

definition productMap :: "sales_record list \<Rightarrow> (string \<times> js_number \<times> js_number) list" where
  "productMap records =
     fold (\<lambda>record acc.
             upsert (sr_product_name record) (Num 0, Num 0)
               (\<lambda>existing. (js_add (fst existing) (Number_integer (sr_quantity record)),
                             js_add (snd existing) (Number_decimal (sr_total_price record)))) acc)
       records []"

definition ProductSales :: "timestamp \<Rightarrow> timestamp \<Rightarrow> sales_record list \<Rightarrow> product_sale list" where
  "ProductSales start end rows =
     (let records = select_range start end rows
      in if records = [] then []
         else sort_descending sale_revenue
                (map (\<lambda>e. \<lparr>sale_name = fst e, sale_quantity = fst (snd e),
                            sale_revenue = snd (snd e)\<rparr>)
                   (productMap records)))"

section \<open>The specification's words\<close>

text \<open>
  The cost the specification names: the referenced product's current cost, absent when
  the item names no product, the product is missing, or the product has no cost.
\<close>

definition current_cost :: "(uuid \<rightharpoonup> product) \<Rightarrow> invoice_item \<Rightarrow> decimal option" where
  "current_cost ps ii = Option.bind (ii_product_id ii) (\<lambda>pid. Option.bind (ps pid) p_cost_inr)"

text \<open>
  \<open>is_snapshot ps invo ii r\<close>: the sales record \<open>r\<close> is the snapshot of item
  \<open>ii\<close> of invoice \<open>invo\<close> that the specification describes.
\<close>

definition is_snapshot :: "(uuid \<rightharpoonup> product) \<Rightarrow> invoice \<Rightarrow> invoice_item \<Rightarrow> sales_record \<Rightarrow> bool" where
  "is_snapshot ps invo ii r =
     (sr_invoice_id r = Some (inv_id invo) \<and>
      sr_invoice_number r = invoice_number invo \<and>
      sr_product_id r = ii_product_id ii \<and>
      sr_product_name r = ii_product_name ii \<and>
      sr_size_name r = ii_size_name ii \<and>
      sr_color_name r = ii_color_name ii \<and>
      sr_quantity r = ii_quantity ii \<and>
      sr_unit_price r = ii_unit_price ii \<and>
      sr_total_price r = ii_total_price ii \<and>
      sr_cost_per_unit r = Some (case current_cost ps ii of None \<Rightarrow> 0 | Some c \<Rightarrow> c) \<and>
      sr_profit_per_unit r =
        Some (case current_cost ps ii of None \<Rightarrow> ii_unit_price ii | Some c \<Rightarrow> ii_unit_price ii - c) \<and>
      sr_total_profit r =
        Some (case current_cost ps ii of None \<Rightarrow> ii_total_price ii
              | Some c \<Rightarrow> (ii_unit_price ii - c) * ii_quantity ii) \<and>
      Some (sr_sale_date r) = created_at invo)"


text \<open>
  C1's invariant, in the specification's words: the sales records of an invoice are
  there exactly when the invoice is done.
\<close>

definition sales_iff_done :: "database \<Rightarrow> bool" where
  "sales_iff_done db =
     list_all (\<lambda>invo. (filter (\<lambda>r. sr_invoice_id r = Some (inv_id invo)) (sales_records db) \<noteq> [])
                       = (payment_status invo = Some ''done''))
       (invoices db)"

text \<open>
  The direction of it that the triggers keep: every sales record that names an invoice
  names one that is there and done. \<open>id\<close> is the primary key of \<open>invoices\<close>.
\<close>

definition refs_done :: "invoice list \<Rightarrow> sales_record list \<Rightarrow> bool" where
  "refs_done invs rs =
     list_all (\<lambda>r. case sr_invoice_id r of
                      None \<Rightarrow> True
                    | Some j \<Rightarrow> list_ex (\<lambda>invo. inv_id invo = j \<and> payment_status invo = Some ''done'') invs)
       rs"

definition sales_only_for_done :: "database \<Rightarrow> bool" where
  "sales_only_for_done db =
     (distinct (map inv_id (invoices db)) \<and> refs_done (invoices db) (sales_records db))"

text \<open>The payment statuses a stored row can have.\<close>

definition status_allowed :: "string option \<Rightarrow> bool" where
  "status_allowed v = (v = None \<or> v = Some ''done'' \<or> v = Some ''pending'')"

definition all_status_allowed :: "database \<Rightarrow> bool" where
  "all_status_allowed db = list_all (\<lambda>r. status_allowed (payment_status r)) (invoices db)"

text \<open>
  The sums of the pages: a running total starts at 0 and takes the rows in their order,
  every addition rounding to a double.
\<close>

definition js_sum :: "js_number list \<Rightarrow> js_number" where
  "js_sum xs = foldl js_add (Num 0) xs"

definition quantity_of :: "sales_record list \<Rightarrow> js_number" where
  "quantity_of rs = js_sum (map (\<lambda>r. Number_integer (sr_quantity r)) rs)"

definition revenue_of :: "sales_record list \<Rightarrow> js_number" where
  "revenue_of rs = js_sum (map (\<lambda>r. Number_decimal (sr_total_price r)) rs)"

definition cost_of :: "sales_record list \<Rightarrow> js_number" where
  "cost_of rs =
     js_sum (map (\<lambda>r. js_mul (Number_nullable (sr_cost_per_unit r))
                        (Number_integer (sr_quantity r))) rs)"

definition profit_of :: "sales_record list \<Rightarrow> js_number" where
  "profit_of rs = js_sum (map (\<lambda>r. Number_nullable (sr_total_profit r)) rs)"

text \<open>
  The sums the specification names, as the exact decimals: the total of the prices, and
  the total of cost per unit times quantity (a missing cost counting 0).
\<close>

definition exact_revenue :: "sales_record list \<Rightarrow> rat" where
  "exact_revenue rs = sum_list (map (\<lambda>r. of_int (sr_total_price r) / 100) rs)"

definition exact_cost :: "sales_record list \<Rightarrow> rat" where
  "exact_cost rs =
     sum_list (map (\<lambda>r. (case sr_cost_per_unit r of None \<Rightarrow> 0 | Some c \<Rightarrow> of_int c / 100)
                           * of_int (sr_quantity r)) rs)"

text \<open>
  The amounts of a record are whole numbers within their columns: the total price and
  the cost per unit have no fractional part, the cost per unit is within
  \<^verbatim>\<open>DECIMAL(10, 2)\<close> and the quantity within \<^verbatim>\<open>INTEGER\<close>. \<open>amount_total\<close> is the total of
  the absolute prices and costs of a list of records, in hundredths.
\<close>

definition cost_hundredths :: "sales_record \<Rightarrow> int" where
  "cost_hundredths r = (case sr_cost_per_unit r of None \<Rightarrow> 0 | Some c \<Rightarrow> c)"

definition whole_amounts :: "sales_record \<Rightarrow> bool" where
  "whole_amounts r =
     (100 dvd sr_total_price r \<and> 100 dvd cost_hundredths r \<and>
      fits_decimal (cost_hundredths r) \<and> \<bar>sr_quantity r\<bar> < 2 ^ 31)"

definition amount_total :: "sales_record list \<Rightarrow> int" where
  "amount_total rs =
     sum_list (map (\<lambda>r. \<bar>sr_total_price r\<bar> + \<bar>cost_hundredths r * sr_quantity r\<bar>) rs)"

text \<open>
  The finite doubles are whole multiples of \<open>2 ^ - 1074\<close>, the smallest positive
  double. \<open>on_grid\<close> holds of such a number, of the zeros and of the infinities, and
  not of NaN: these are the numbers that the comparator of a sort puts in order.
\<close>

definition grid :: "rat \<Rightarrow> bool" where
  "grid a = (of_int \<lfloor>a * 2 ^ 1074\<rfloor> = a * 2 ^ 1074)"

fun on_grid :: "js_number \<Rightarrow> bool" where
  "on_grid (Num a) = grid a"
| "on_grid Neg_zero = True"
| "on_grid Pos_infinity = True"
| "on_grid Neg_infinity = True"
| "on_grid Not_a_number = False"

section \<open>Example data\<close>

definition shirt :: product where
  "shirt = \<lparr>p_name = ''Shirt'', p_price_inr = 10000, p_cost_inr = Some 6000,
     p_quantity_in_stock = 5\<rparr>"

definition item_a :: invoice_item where
  "item_a = \<lparr>ii_invoice_id = 1, ii_product_id = Some 7, ii_product_name = ''Shirt'',
     ii_size_name = Some ''M'', ii_color_name = None, ii_quantity = 2,
     ii_unit_price = 10000, ii_total_price = 20000\<rparr>"

definition sale_a :: sales_record where
  "sale_a = \<lparr>sr_invoice_id = Some 1, sr_invoice_number = ''INV-000001'', sr_product_id = Some 7,
     sr_product_name = ''Shirt'', sr_size_name = Some ''M'', sr_color_name = None,
     sr_quantity = 2, sr_unit_price = 10000, sr_total_price = 20000,
     sr_cost_per_unit = Some 6000, sr_profit_per_unit = Some 4000, sr_total_profit = Some 8000,
     sr_sale_date = 100\<rparr>"

definition invoice_1 :: "string option \<Rightarrow> invoice" where
  "invoice_1 st = \<lparr>inv_id = 1, invoice_number = ''INV-000001'', payment_status = st,
     created_at = Some 100\<rparr>"

text \<open>One invoice with one item, in a given status and with given sales records.\<close>

definition shop :: "string option \<Rightarrow> sales_record list \<Rightarrow> database" where
  "shop st rs = \<lparr>products = [7 \<mapsto> shirt], invoices = [invoice_1 st],
     invoice_items = [item_a], sales_records = rs\<rparr>"



text \<open>One invoice without items.\<close>

definition bare :: "string option \<Rightarrow> database" where
  "bare st = \<lparr>products = Map.empty, invoices = [invoice_1 st], invoice_items = [],
     sales_records = []\<rparr>"

definition input_1 :: "string column_value \<Rightarrow> invoice_input" where
  "input_1 st = \<lparr>in_id = 1, in_invoice_number = None, in_payment_status = st,
     in_created_at = Omitted\<rparr>"

text \<open>A done invoice with a given id and number, and the input of an insert without a number.\<close>

definition invoice_numbered :: "uuid \<Rightarrow> string \<Rightarrow> invoice" where
  "invoice_numbered k num = \<lparr>inv_id = k, invoice_number = num, payment_status = Some ''done'',
     created_at = Some 100\<rparr>"

definition input_unnumbered :: "uuid \<Rightarrow> invoice_input" where
  "input_unnumbered k = \<lparr>in_id = k, in_invoice_number = None, in_payment_status = Omitted,
     in_created_at = Omitted\<rparr>"

definition invoices_only :: "invoice list \<Rightarrow> database" where
  "invoices_only invs = \<lparr>products = Map.empty, invoices = invs, invoice_items = [],
     sales_records = []\<rparr>"

text \<open>
  A sales record of product \<open>pid\<close> named \<open>name\<close>: \<open>qty\<close> units at unit price
  \<open>price\<close> and unit cost \<open>cost\<close> (both in hundredths), sold at time 5.
\<close>

definition sale :: "uuid \<Rightarrow> string \<Rightarrow> int \<Rightarrow> decimal \<Rightarrow> decimal \<Rightarrow> sales_record" where
  "sale pid name qty price cost =
     \<lparr>sr_invoice_id = None, sr_invoice_number = ''INV-000001'', sr_product_id = Some pid,
      sr_product_name = name, sr_size_name = None, sr_color_name = None,
      sr_quantity = qty, sr_unit_price = price, sr_total_price = price * qty,
      sr_cost_per_unit = Some cost, sr_profit_per_unit = Some (price - cost),
      sr_total_profit = Some ((price - cost) * qty), sr_sale_date = 5\<rparr>"

text \<open>The two records of product A of the specification's example.\<close>

definition prod_a_rows :: "sales_record list" where
  "prod_a_rows = [sale 7 ''ProdA'' 2 10000 6000, sale 7 ''ProdA'' 1 10000 6000]"

text \<open>
  Twenty-one products, numbered 101 to 121; product \<open>100 + n\<close> sold \<open>n\<close> units, so
  product 121 sold most.
\<close>

definition trending_rows :: "sales_record list" where
  "trending_rows = map (\<lambda>k. sale k ''P'' (int k - 100) 10000 6000) [101..<122]"

text \<open>Products P1 (quantity 10, revenue 1000) and P2 (quantity 15, revenue 800).\<close>

definition two_product_rows :: "sales_record list" where
  "two_product_rows = [sale 1 ''P1'' 10 10000 6000, sale 2 ''P2'' 10 5000 3000,
     sale 2 ''P2'' 5 6000 3000]"

text \<open>Products B (revenue 0.30), A (0.10 and 0.20) and C (0.30), in this order.\<close>

definition rounding_rows :: "sales_record list" where
  "rounding_rows = [sale 1 ''B'' 1 30 0, sale 2 ''A'' 1 10 0, sale 2 ''A'' 1 20 0,
     sale 3 ''C'' 1 30 0]"

section \<open>Properties of the triggers\<close>

lemmas shop_defs = shop_def invoice_1_def item_a_def sale_a_def shirt_def

lemma is_true_sql_eq: "is_true (sql_eq a (Some x)) = (a = Some x)"
  by (cases a) (auto simp: is_true_def sql_eq_def)

lemma is_true_sql_and: "is_true (sql_and p q) = (is_true p \<and> is_true q)"
  by (auto simp: is_true_def sql_and_def)

lemma check_payment_status_iff:
  "check_payment_status v = (v = None \<or> v = Some ''done'' \<or> v = Some ''pending'')"
  by (cases v) (auto simp: check_payment_status_def sql_or_def sql_eq_def)

lemma manage_pending_done:
  "payment_status old = Some ''pending'' \<Longrightarrow> payment_status new = Some ''done'' \<Longrightarrow>
   manage_sales_records_on_invoice_update plan db old new = insert_sales_records plan db new"
  by (simp add: manage_sales_records_on_invoice_update_def is_true_sql_eq is_true_sql_and
      split: sum.splits)

lemma manage_done_pending:
  "payment_status old = Some ''done'' \<Longrightarrow> payment_status new = Some ''pending'' \<Longrightarrow>
   manage_sales_records_on_invoice_update plan db old new = Inr (delete_sales_records db (inv_id new))"
  by (simp add: manage_sales_records_on_invoice_update_def is_true_sql_eq is_true_sql_and)

lemma manage_other:
  "\<not> (payment_status old = Some ''pending'' \<and> payment_status new = Some ''done'') \<Longrightarrow>
   \<not> (payment_status old = Some ''done'' \<and> payment_status new = Some ''pending'') \<Longrightarrow>
   manage_sales_records_on_invoice_update plan db old new = Inr db"
  by (auto simp: manage_sales_records_on_invoice_update_def is_true_sql_eq is_true_sql_and)

lemma update_found:
  "find (\<lambda>r. inv_id r = i) (invoices db) = Some old \<Longrightarrow> check_payment_status v \<Longrightarrow>
   update_payment_status plan db i v =
     (if payment_status old \<noteq> v
      then manage_sales_records_on_invoice_update plan (set_status db i v) old
             (old\<lparr>payment_status := v\<rparr>)
      else Inr (set_status db i v))"
  by (simp add: update_payment_status_def is_distinct_from_def)

lemma update_not_found:
  "find (\<lambda>r. inv_id r = i) (invoices db) = None \<Longrightarrow> update_payment_status plan db i v = Inr db"
  by (simp add: update_payment_status_def)

lemma update_rejected:
  "find (\<lambda>r. inv_id r = i) (invoices db) = Some old \<Longrightarrow> \<not> check_payment_status v \<Longrightarrow>
   update_payment_status plan db i v = Inl Check_violation"
  by (simp add: update_payment_status_def)

lemma find_inv_id: "find (\<lambda>r. inv_id r = i) invs = Some old \<Longrightarrow> inv_id old = i"
  by (auto simp: find_Some_iff)

lemma find_in_set: "find (\<lambda>r. inv_id r = i) invs = Some old \<Longrightarrow> old \<in> set invs"
  by (auto simp: find_Some_iff)

lemma set_status_fields:
  "products (set_status db i v) = products db"
  "invoice_items (set_status db i v) = invoice_items db"
  "sales_records (set_status db i v) = sales_records db"
  "items_of (set_status db i v) j = items_of db j"
  "map inv_id (invoices (set_status db i v)) = map inv_id (invoices db)"
  by (simp_all add: set_status_def items_of_def)

lemma status_after_set_status:
  assumes "r \<in> set (invoices (set_status db i v))" and "inv_id r = i"
  shows "payment_status r = v"
proof -
  from assms(1)
  have "r \<in> (\<lambda>x. if inv_id x = i then x\<lparr>payment_status := v\<rparr> else x) ` set (invoices db)"
    by (simp add: set_status_def)
  then obtain x where x: "r = (if inv_id x = i then x\<lparr>payment_status := v\<rparr> else x)"
    by blast
  show ?thesis
  proof (cases "inv_id x = i")
    case True
    with x show ?thesis by simp
  next
    case False
    with x assms(2) show ?thesis by simp
  qed
qed

lemma list_all2_length_rev: "list_all2 P xs ys \<Longrightarrow> length ys = length xs"
  by (simp add: list_all2_lengthD)

lemma row_order_Nil: "row_order plan \<Longrightarrow> plan [] = []"
  using mset_zero_iff by (fastforce simp: row_order_def)

lemma row_order_single: "row_order plan \<Longrightarrow> plan [x] = [x]"
  by (simp add: row_order_def mset_single_iff_right[symmetric])

lemma row_order_rev: "row_order rev"
  by (simp add: row_order_def)


lemma joined_cost_current: "joined_cost db ii = current_cost (products db) ii"
  by (simp add: joined_cost_def current_cost_def split: option.splits)

lemma sales_row_Inr:
  "sales_row new ii (current_cost ps ii) = Inr r \<Longrightarrow> is_snapshot ps new ii r"
  by (auto simp: sales_row_def is_snapshot_def Let_def split: option.splits if_splits)

lemma select_rows_Inr:
  "select_rows db new iis = Inr rs \<Longrightarrow> list_all2 (is_snapshot (products db) new) iis rs"
proof (induction iis arbitrary: rs)
  case Nil
  then show ?case by simp
next
  case (Cons ii iis)
  then show ?case
    by (auto simp: joined_cost_current split: sum.splits dest: sales_row_Inr)
qed



lemma insert_sales_records_Inr:
  "insert_sales_records plan db new = Inr db' \<Longrightarrow>
   \<exists>rs. db' = db\<lparr>sales_records := sales_records db @ rs\<rparr> \<and>
        list_all2 (is_snapshot (products db) new) (plan (items_of db (inv_id new))) rs"
  by (auto simp: insert_sales_records_def split: sum.splits dest: select_rows_Inr)

lemma is_snapshot_status:
  "is_snapshot ps (invo\<lparr>payment_status := v\<rparr>) = is_snapshot ps invo"
  by (simp add: is_snapshot_def fun_eq_iff)

lemma pending_to_done_Inr:
  assumes "find (\<lambda>r. inv_id r = i) (invoices db) = Some old"
    and "payment_status old = Some ''pending''"
    and "update_payment_status plan db i (Some ''done'') = Inr db'"
  shows "\<exists>rs. db' = (set_status db i (Some ''done''))\<lparr>sales_records := sales_records db @ rs\<rparr> \<and>
           list_all2 (is_snapshot (products db) old) (plan (items_of db i)) rs"
proof -
  let ?new = "old\<lparr>payment_status := Some ''done''\<rparr>"
  have i: "inv_id ?new = i" using find_inv_id[OF assms(1)] by simp
  have "insert_sales_records plan (set_status db i (Some ''done'')) ?new = Inr db'"
    using assms by (simp add: update_found check_payment_status_iff manage_pending_done)
  from insert_sales_records_Inr[OF this] show ?thesis
    unfolding i is_snapshot_status set_status_fields .
qed

lemma done_to_pending_Inr:
  assumes "find (\<lambda>r. inv_id r = i) (invoices db) = Some old"
    and "payment_status old = Some ''done''"
  shows "update_payment_status plan db i (Some ''pending'')
           = Inr (delete_sales_records (set_status db i (Some ''pending'')) i)"
  using assms find_inv_id[OF assms(1)]
  by (simp add: update_found check_payment_status_iff manage_done_pending)

lemma delete_sales_records_eq:
  "sales_records (delete_sales_records db i)
     = filter (\<lambda>r. sr_invoice_id r \<noteq> Some i) (sales_records db)"
  by (simp add: delete_sales_records_def is_true_sql_eq)

lemma delete_sales_records_fields:
  "products (delete_sales_records db i) = products db"
  "invoice_items (delete_sales_records db i) = invoice_items db"
  "invoices (delete_sales_records db i) = invoices db"
  by (simp_all add: delete_sales_records_def)

lemma pending_to_done_example:
  assumes "row_order plan"
  shows "update_payment_status plan (shop (Some ''pending'') rs) 1 (Some ''done'')
     = Inr (shop (Some ''done'') (rs @ [sale_a]))"
proof -
  have f: "find (\<lambda>r. inv_id r = 1) (invoices (shop (Some ''pending'') rs))
             = Some (invoice_1 (Some ''pending''))"
    by (simp add: shop_def invoice_1_def)
  have c: "check_payment_status (Some ''done'')"
    by (simp add: check_payment_status_iff)
  have p: "payment_status (invoice_1 (Some ''pending'')) \<noteq> Some ''done''"
    by (simp add: invoice_1_def)
  have n: "(invoice_1 (Some ''pending''))\<lparr>payment_status := Some ''done''\<rparr>
             = invoice_1 (Some ''done'')"
    by (simp add: invoice_1_def)
  have s: "set_status (shop (Some ''pending'') rs) 1 (Some ''done'') = shop (Some ''done'') rs"
    by (simp add: set_status_def shop_def invoice_1_def)
  have m: "manage_sales_records_on_invoice_update plan (shop (Some ''done'') rs)
             (invoice_1 (Some ''pending'')) (invoice_1 (Some ''done''))
           = insert_sales_records plan (shop (Some ''done'') rs) (invoice_1 (Some ''done''))"
    by (rule manage_pending_done) (simp_all add: invoice_1_def)
  have "insert_sales_records plan (shop (Some ''done'') rs) (invoice_1 (Some ''done''))
          = Inr (shop (Some ''done'') (rs @ [sale_a]))"
    by (simp add: insert_sales_records_def items_of_def sales_row_def joined_cost_def
        fits_decimal_def shop_defs row_order_single[OF assms])
  then show ?thesis
    unfolding update_found[OF f c] if_P[OF p] n s m .
qed

text \<open>A status change that is neither pending to done nor done to pending touches no record.\<close>

lemma other_change_example:
  assumes "st \<noteq> v" and "check_payment_status v"
    and "\<not> (st = Some ''pending'' \<and> v = Some ''done'')"
    and "\<not> (st = Some ''done'' \<and> v = Some ''pending'')"
  shows "update_payment_status plan (shop st rs) 1 v = Inr (shop v rs)"
proof -
  have f: "find (\<lambda>r. inv_id r = 1) (invoices (shop st rs)) = Some (invoice_1 st)"
    by (simp add: shop_def invoice_1_def)
  have p: "payment_status (invoice_1 st) \<noteq> v"
    using assms(1) by (simp add: invoice_1_def)
  have s: "set_status (shop st rs) 1 v = shop v rs"
    by (simp add: set_status_def shop_def invoice_1_def)
  have m: "manage_sales_records_on_invoice_update plan (shop v rs) (invoice_1 st)
             ((invoice_1 st)\<lparr>payment_status := v\<rparr>) = Inr (shop v rs)"
    by (rule manage_other) (use assms(3,4) in \<open>simp_all add: invoice_1_def\<close>)
  show ?thesis
    unfolding update_found[OF f assms(2)] if_P[OF p] s m ..
qed

lemma done_to_pending_example:
  "update_payment_status plan (shop (Some ''done'') [sale_a]) 1 (Some ''pending'')
     = Inr (shop (Some ''pending'') [])"
proof -
  have f: "find (\<lambda>r. inv_id r = 1) (invoices (shop (Some ''done'') [sale_a]))
             = Some (invoice_1 (Some ''done''))"
    by (simp add: shop_def invoice_1_def)
  have s: "payment_status (invoice_1 (Some ''done'')) = Some ''done''"
    by (simp add: invoice_1_def)
  show ?thesis
    unfolding done_to_pending_Inr[OF f s]
    by (simp add: set_status_def delete_sales_records_def is_true_sql_eq shop_defs)
qed

lemma create_again_example:
  assumes "row_order plan"
  shows "create_sales_records_on_invoice plan (shop (Some ''done'') rs) (invoice_1 (Some ''done''))
     = Inr (shop (Some ''done'') (rs @ [sale_a]))"
  by (simp add: create_sales_records_on_invoice_def is_true_sql_eq insert_sales_records_def
      items_of_def sales_row_def joined_cost_def fits_decimal_def shop_defs
      row_order_single[OF assms])

lemma insert_invoice_Inr:
  assumes "insert_invoice db now inp = Inr db'"
  shows "\<exists>num st ts. db' = db\<lparr>invoices := invoices db @
            [\<lparr>inv_id = in_id inp, invoice_number = num, payment_status = st, created_at = ts\<rparr>]\<rparr> \<and>
          generate_invoice_number (invoices db) (in_invoice_number inp) = Inr num \<and>
          st = (case in_payment_status inp of Omitted \<Rightarrow> Some ''done'' | Given v \<Rightarrow> v) \<and>
          ts = (case in_created_at inp of Omitted \<Rightarrow> Some now | Given v \<Rightarrow> v) \<and>
          check_payment_status st \<and>
          in_id inp \<notin> inv_id ` set (invoices db) \<and>
          num \<notin> invoice_number ` set (invoices db)"
proof (cases "generate_invoice_number (invoices db) (in_invoice_number inp)")
  case (Inl e)
  with assms show ?thesis by (simp add: insert_invoice_def)
next
  case (Inr num)
  with assms show ?thesis
    by (simp add: insert_invoice_def Let_def split: if_splits)
qed

declare text_of_nat.simps [simp del]

lemma first_invoice_number: "generate_invoice_number [] None = Inr ''INV-000001''"
proof -
  have "next_number [] = Inr 1"
    by (simp add: next_number_def List.map_filter_def)
  moreover have "text_of_nat 1 = ''1''"
    by (subst text_of_nat.simps) (simp add: digit_char_def)
  ultimately show ?thesis
    by (simp add: generate_invoice_number_def lpad_def eval_nat_numeral)
qed

lemma insert_first_example:
  assumes "check_payment_status (case st of Omitted \<Rightarrow> Some ''done'' | Given v \<Rightarrow> v)"
  shows "insert_invoice empty_database 100 (input_1 st)
           = Inr (bare (case st of Omitted \<Rightarrow> Some ''done'' | Given v \<Rightarrow> v))"
  using assms
  by (simp add: insert_invoice_def input_1_def empty_database_def first_invoice_number
      bare_def invoice_1_def)






text \<open>
  C3. When an invoice's payment status is updated from done to pending, the update
  succeeds and its result has, at once, the status changed and every sales record of that
  invoice gone; the sales records of every other invoice, and those with no invoice, are
  the same rows in the same order. Items and products are untouched.
\<close>

theorem done_to_pending_deletes_sales_records:
  assumes "find (\<lambda>r. inv_id r = i) (invoices db) = Some old"
    and "payment_status old = Some ''done''"
  shows "\<exists>db'. update_payment_status plan db i (Some ''pending'') = Inr db' \<and>
      sales_records db' = filter (\<lambda>r. sr_invoice_id r \<noteq> Some i) (sales_records db) \<and>
      (\<forall>r \<in> set (invoices db'). inv_id r = i \<longrightarrow> payment_status r = Some ''pending'') \<and>
      map inv_id (invoices db') = map inv_id (invoices db) \<and>
      invoice_items db' = invoice_items db \<and> products db' = products db"
proof -
  let ?db' = "delete_sales_records (set_status db i (Some ''pending'')) i"
  have "update_payment_status plan db i (Some ''pending'') = Inr ?db'"
    by (rule done_to_pending_Inr[OF assms])
  moreover have "sales_records ?db' = filter (\<lambda>r. sr_invoice_id r \<noteq> Some i) (sales_records db)"
    by (simp add: delete_sales_records_eq set_status_fields)
  moreover have "\<forall>r \<in> set (invoices ?db'). inv_id r = i \<longrightarrow> payment_status r = Some ''pending''"
    by (simp add: delete_sales_records_fields status_after_set_status)
  moreover have "map inv_id (invoices ?db') = map inv_id (invoices db)"
    by (simp add: delete_sales_records_fields set_status_fields)
  moreover have "invoice_items ?db' = invoice_items db \<and> products ?db' = products db"
    by (simp add: delete_sales_records_fields set_status_fields)
  ultimately show ?thesis by blast
qed

theorem done_to_pending_deletes_sales_records_witness:
  "find (\<lambda>r. inv_id r = 1) (invoices (shop (Some ''done'') [sale_a]))
     = Some (invoice_1 (Some ''done'')) \<and>
   payment_status (invoice_1 (Some ''done'')) = Some ''done'' \<and>
   (\<exists>db'. update_payment_status rev (shop (Some ''done'') [sale_a]) 1 (Some ''pending'') = Inr db' \<and>
      sales_records db' = [] \<and> invoice_items db' = [item_a])"
proof -
  have f: "find (\<lambda>r. inv_id r = 1) (invoices (shop (Some ''done'') [sale_a]))
             = Some (invoice_1 (Some ''done''))"
    by (simp add: shop_def invoice_1_def)
  have s: "payment_status (invoice_1 (Some ''done'')) = Some ''done''"
    by (simp add: invoice_1_def)
  have e: "filter (\<lambda>r. sr_invoice_id r \<noteq> Some 1) (sales_records (shop (Some ''done'') [sale_a])) = []"
    by (simp add: shop_def sale_a_def)
  have i: "invoice_items (shop (Some ''done'') [sale_a]) = [item_a]"
    by (simp add: shop_def)
  from done_to_pending_deletes_sales_records[OF f s, of rev] obtain db' where
    "update_payment_status rev (shop (Some ''done'') [sale_a]) 1 (Some ''pending'') = Inr db'"
    "sales_records db' = filter (\<lambda>r. sr_invoice_id r \<noteq> Some 1) (sales_records (shop (Some ''done'') [sale_a]))"
    "invoice_items db' = invoice_items (shop (Some ''done'') [sale_a])"
    by blast
  with f s e i show ?thesis by auto
qed

text \<open>
  C9, as the schema has it. Deleting an invoice removes that invoice and no other,
  deletes its items and no others (\<^verbatim>\<open>ON DELETE CASCADE\<close>), and keeps every sales record:
  those of the invoice stay in their places with \<open>invoice_id\<close> set to NULL
  (\<^verbatim>\<open>ON DELETE SET NULL\<close>) and every other column as it was, all others are untouched.
  Afterwards no item and no sales record references the invoice.
\<close>

theorem delete_invoice_cascade:
  "i \<in> inv_id ` set (invoices db) \<Longrightarrow>
   invoices (delete_invoice db i) = filter (\<lambda>r. inv_id r \<noteq> i) (invoices db) \<and>
   invoice_items (delete_invoice db i)
     = filter (\<lambda>ii. ii_invoice_id ii \<noteq> i) (invoice_items db) \<and>
   sales_records (delete_invoice db i)
     = map (\<lambda>r. if sr_invoice_id r = Some i then r\<lparr>sr_invoice_id := None\<rparr> else r)
         (sales_records db) \<and>
   products (delete_invoice db i) = products db \<and>
   (\<forall>ii \<in> set (invoice_items (delete_invoice db i)). ii_invoice_id ii \<noteq> i) \<and>
   (\<forall>r \<in> set (sales_records (delete_invoice db i)). sr_invoice_id r \<noteq> Some i)"
  by (auto simp: delete_invoice_def)

theorem delete_invoice_cascade_witness:
  "1 \<in> inv_id ` set (invoices (shop (Some ''done'') [sale_a])) \<and>
   invoices (delete_invoice (shop (Some ''done'') [sale_a]) 1) = [] \<and>
   invoice_items (delete_invoice (shop (Some ''done'') [sale_a]) 1) = [] \<and>
   sales_records (delete_invoice (shop (Some ''done'') [sale_a]) 1)
     = [sale_a\<lparr>sr_invoice_id := None\<rparr>]"
proof -
  have m: "1 \<in> inv_id ` set (invoices (shop (Some ''done'') [sale_a]))"
    by (simp add: shop_def invoice_1_def)
  from delete_invoice_cascade[OF m] m show ?thesis
    by (simp add: shop_def invoice_1_def item_a_def sale_a_def)
qed

text \<open>
  C9 as stated fails: the sales record of a deleted invoice is still in the table.
\<close>

theorem delete_invoice_keeps_sales_records:
  "sales_records (delete_invoice (shop (Some ''done'') [sale_a]) 1)
     = [sale_a\<lparr>sr_invoice_id := None\<rparr>]"
  by (simp add: delete_invoice_def shop_defs)

section \<open>The invariant of the sales records\<close>

lemma refs_done_iff:
  "refs_done invs rs =
     (\<forall>r \<in> set rs. \<forall>j. sr_invoice_id r = Some j \<longrightarrow>
        (\<exists>invo \<in> set invs. inv_id invo = j \<and> payment_status invo = Some ''done''))"
  by (auto simp: refs_done_def list_all_iff list_ex_iff split: option.splits)

lemma refs_done_set_status_done:
  assumes "refs_done (invoices db) rs"
  shows "refs_done (invoices (set_status db i (Some ''done''))) rs"
  unfolding refs_done_iff
proof (intro ballI allI impI)
  fix r j assume "r \<in> set rs" "sr_invoice_id r = Some j"
  with assms obtain invo where invo: "invo \<in> set (invoices db)" "inv_id invo = j"
      "payment_status invo = Some ''done''"
    unfolding refs_done_iff by blast
  let ?f = "\<lambda>r. if inv_id r = i then r\<lparr>payment_status := Some ''done''\<rparr> else r"
  have "?f invo \<in> set (invoices (set_status db i (Some ''done'')))"
    using invo(1) by (simp add: set_status_def)
  moreover have "inv_id (?f invo) = j \<and> payment_status (?f invo) = Some ''done''"
    using invo by simp
  ultimately show "\<exists>invo \<in> set (invoices (set_status db i (Some ''done''))).
      inv_id invo = j \<and> payment_status invo = Some ''done''"
    by blast
qed

lemma refs_done_set_status_other:
  assumes "refs_done (invoices db) rs"
    and "\<forall>r \<in> set rs. sr_invoice_id r \<noteq> Some i"
  shows "refs_done (invoices (set_status db i v)) rs"
  unfolding refs_done_iff
proof (intro ballI allI impI)
  fix r j assume r: "r \<in> set rs" "sr_invoice_id r = Some j"
  with assms(2) have ji: "j \<noteq> i" by auto
  from r assms(1) obtain invo where invo: "invo \<in> set (invoices db)" "inv_id invo = j"
      "payment_status invo = Some ''done''"
    unfolding refs_done_iff by blast
  let ?f = "\<lambda>r. if inv_id r = i then r\<lparr>payment_status := v\<rparr> else r"
  have "?f invo \<in> set (invoices (set_status db i v))"
    using invo(1) by (simp add: set_status_def)
  moreover have "?f invo = invo" using invo(2) ji by simp
  ultimately show "\<exists>invo \<in> set (invoices (set_status db i v)).
      inv_id invo = j \<and> payment_status invo = Some ''done''"
    using invo by metis
qed

lemma no_refs_when_not_done:
  assumes "distinct (map inv_id invs)" and "refs_done invs rs"
    and "old \<in> set invs" and "payment_status old \<noteq> Some ''done''"
  shows "\<forall>r \<in> set rs. sr_invoice_id r \<noteq> Some (inv_id old)"
proof
  fix r assume r: "r \<in> set rs"
  show "sr_invoice_id r \<noteq> Some (inv_id old)"
  proof
    assume "sr_invoice_id r = Some (inv_id old)"
    with r assms(2) obtain invo where invo: "invo \<in> set invs" "inv_id invo = inv_id old"
        "payment_status invo = Some ''done''"
      unfolding refs_done_iff by blast
    from assms(1) invo(1,2) assms(3) have "invo = old"
      by (meson distinct_map inj_onD)
    with invo(3) assms(4) show False by simp
  qed
qed

lemma is_snapshot_invoice_id: "is_snapshot ps invo ii r \<Longrightarrow> sr_invoice_id r = Some (inv_id invo)"
  by (simp add: is_snapshot_def)

lemma list_all2_snapshot_invoice_id:
  "list_all2 (is_snapshot ps invo) iis rs \<Longrightarrow> \<forall>r \<in> set rs. sr_invoice_id r = Some (inv_id invo)"
  by (induction iis rs rule: list_all2_induct) (auto dest: is_snapshot_invoice_id)

lemma sales_only_for_done_update:
  assumes inv: "sales_only_for_done db" and v: "v \<noteq> None"
    and u: "update_payment_status plan db i v = Inr db'"
  shows "sales_only_for_done db'"
proof (cases "find (\<lambda>r. inv_id r = i) (invoices db)")
  case None
  with u inv show ?thesis by (simp add: update_not_found)
next
  case (Some old)
  note f = Some
  from inv have d: "distinct (map inv_id (invoices db))"
    and rd: "refs_done (invoices db) (sales_records db)"
    by (simp_all add: sales_only_for_done_def)
  have i: "inv_id old = i" by (rule find_inv_id[OF f])
  have mem: "old \<in> set (invoices db)" by (rule find_in_set[OF f])
  have c: "check_payment_status v"
  proof (rule ccontr)
    assume "\<not> check_payment_status v"
    from update_rejected[OF f this] u show False by simp
  qed
  with v have v2: "v = Some ''done'' \<or> v = Some ''pending''"
    by (auto simp: check_payment_status_iff)
  have d': "\<And>rs. distinct (map inv_id (invoices ((set_status db i v)\<lparr>sales_records := rs\<rparr>)))"
    using d by (simp add: set_status_fields)
  note uf = update_found[OF f c]
  show ?thesis
  proof (cases "payment_status old = Some ''done''")
    case True
    note od = True
    show ?thesis
    proof (cases "v = Some ''done''")
      case True
      with od u uf have "db' = set_status db i (Some ''done'')" by simp
      with d rd show ?thesis
        by (simp add: sales_only_for_done_def set_status_fields refs_done_set_status_done)
    next
      case False
      with v2 have vp: "v = Some ''pending''" by simp
      with od u uf have db': "db' = delete_sales_records (set_status db i (Some ''pending'')) i"
        by (simp add: manage_done_pending i)
      let ?rs = "filter (\<lambda>r. sr_invoice_id r \<noteq> Some i) (sales_records db)"
      have "refs_done (invoices db) ?rs"
        using rd by (auto simp: refs_done_iff)
      then have "refs_done (invoices (set_status db i (Some ''pending''))) ?rs"
        by (rule refs_done_set_status_other) simp
      with d show ?thesis
        by (simp add: db' sales_only_for_done_def delete_sales_records_eq
            delete_sales_records_fields set_status_fields)
    qed
  next
    case False
    note nd = False
    from no_refs_when_not_done[OF d rd mem nd] i
    have nr: "\<forall>r \<in> set (sales_records db). sr_invoice_id r \<noteq> Some i" by simp
    show ?thesis
    proof (cases "payment_status old = Some ''pending'' \<and> v = Some ''done''")
      case True
      with u f obtain rs where
        rs: "db' = (set_status db i (Some ''done''))\<lparr>sales_records := sales_records db @ rs\<rparr>"
            "list_all2 (is_snapshot (products db) old) (plan (items_of db i)) rs"
        using pending_to_done_Inr[of i db old plan db'] by blast
      have "old\<lparr>payment_status := Some ''done''\<rparr> \<in> set (invoices (set_status db i (Some ''done'')))"
        using mem i by (force simp: set_status_def)
      then have "\<exists>invo \<in> set (invoices (set_status db i (Some ''done''))).
          inv_id invo = i \<and> payment_status invo = Some ''done''"
        using i by (intro bexI[of _ "old\<lparr>payment_status := Some ''done''\<rparr>"]) simp_all
      moreover have "\<forall>r \<in> set rs. sr_invoice_id r = Some i"
        using list_all2_snapshot_invoice_id[OF rs(2)] i by simp
      ultimately have "refs_done (invoices (set_status db i (Some ''done''))) rs"
        unfolding refs_done_iff by auto
      moreover have "refs_done (invoices (set_status db i (Some ''done''))) (sales_records db)"
        by (rule refs_done_set_status_done[OF rd])
      ultimately have "refs_done (invoices (set_status db i (Some ''done''))) (sales_records db @ rs)"
        unfolding refs_done_iff by auto
      with d show ?thesis
        by (simp add: rs(1) sales_only_for_done_def set_status_fields)
    next
      case False
      have "db' = set_status db i v"
      proof (cases "payment_status old = v")
        case True
        with u uf show ?thesis by simp
      next
        case ne: False
        have "manage_sales_records_on_invoice_update plan (set_status db i v) old
                (old\<lparr>payment_status := v\<rparr>) = Inr (set_status db i v)"
          by (rule manage_other) (use False nd in simp_all)
        with u uf ne show ?thesis by simp
      qed
      moreover have "refs_done (invoices (set_status db i v)) (sales_records db)"
        by (rule refs_done_set_status_other[OF rd nr])
      ultimately show ?thesis using d
        by (simp add: sales_only_for_done_def set_status_fields)
    qed
  qed
qed

lemma sales_only_for_done_insert:
  assumes inv: "sales_only_for_done db" and u: "insert_invoice db now inp = Inr db'"
  shows "sales_only_for_done db'"
proof -
  from insert_invoice_Inr[OF u] obtain row where
    db': "db' = db\<lparr>invoices := invoices db @ [row]\<rparr>" and id: "inv_id row = in_id inp"
    and fresh: "in_id inp \<notin> inv_id ` set (invoices db)"
    by force
  from inv have "refs_done (invoices db @ [row]) (sales_records db)"
    unfolding sales_only_for_done_def refs_done_iff by auto
  with inv fresh id show ?thesis
    by (simp add: db' sales_only_for_done_def)
qed


lemma update_bare_example:
  assumes "row_order plan"
  shows "update_payment_status plan (bare (Some ''pending'')) 1 (Some ''done'')
           = Inr (bare (Some ''done''))"
proof -
  have f: "find (\<lambda>r. inv_id r = 1) (invoices (bare (Some ''pending'')))
             = Some (invoice_1 (Some ''pending''))"
    by (simp add: bare_def invoice_1_def)
  have c: "check_payment_status (Some ''done'')"
    by (simp add: check_payment_status_iff)
  have p: "payment_status (invoice_1 (Some ''pending'')) \<noteq> Some ''done''"
    by (simp add: invoice_1_def)
  have n: "(invoice_1 (Some ''pending''))\<lparr>payment_status := Some ''done''\<rparr>
             = invoice_1 (Some ''done'')"
    by (simp add: invoice_1_def)
  have s: "set_status (bare (Some ''pending'')) 1 (Some ''done'') = bare (Some ''done'')"
    by (simp add: set_status_def bare_def invoice_1_def)
  have m: "manage_sales_records_on_invoice_update plan (bare (Some ''done''))
             (invoice_1 (Some ''pending'')) (invoice_1 (Some ''done''))
           = insert_sales_records plan (bare (Some ''done'')) (invoice_1 (Some ''done''))"
    by (rule manage_pending_done) (simp_all add: invoice_1_def)
  have "insert_sales_records plan (bare (Some ''done'')) (invoice_1 (Some ''done''))
          = Inr (bare (Some ''done''))"
    by (simp add: insert_sales_records_def items_of_def bare_def row_order_Nil[OF assms])
  then show ?thesis
    unfolding update_found[OF f c] if_P[OF p] n s m .
qed

lemma update_to_null_Inr:
  assumes "update_payment_status plan db i None = Inr db'"
  shows "db' = db \<or> db' = set_status db i None"
proof (cases "find (\<lambda>r. inv_id r = i) (invoices db)")
  case None
  with assms show ?thesis by (simp add: update_not_found)
next
  case (Some old)
  have c: "check_payment_status None" by (simp add: check_payment_status_iff)
  have "manage_sales_records_on_invoice_update plan (set_status db i None) old
          (old\<lparr>payment_status := None\<rparr>) = Inr (set_status db i None)"
    by (rule manage_other) simp_all
  with assms show ?thesis
    unfolding update_found[OF Some c] by (simp split: if_splits)
qed

text \<open>
  C1, as the triggers keep it. Every sales record that names an invoice names an invoice
  that is there and done, so an invoice that is not done has no sales records. This is
  kept by the insertion of an invoice row in either status and by every update of a
  payment status to done or to pending. An update of a payment status to NULL, which the
  check constraint admits, changes no sales record and no item, so that it does not keep
  the invariant when the invoice was done. (The converse is not kept either: a done
  invoice without items has no sales records.)
\<close>

theorem sales_records_only_for_done_invoices:
  "(sales_only_for_done db \<and> insert_invoice db now inp = Inr db' \<longrightarrow> sales_only_for_done db') \<and>
   (sales_only_for_done db \<and> v \<noteq> None \<and> update_payment_status plan db i v = Inr db'' \<longrightarrow>
      sales_only_for_done db'') \<and>
   (update_payment_status plan db i None = Inr db0 \<longrightarrow>
      sales_records db0 = sales_records db \<and> invoice_items db0 = invoice_items db)"
proof (intro conjI impI)
  assume "sales_only_for_done db \<and> insert_invoice db now inp = Inr db'"
  then show "sales_only_for_done db'"
    using sales_only_for_done_insert by blast
next
  assume "sales_only_for_done db \<and> v \<noteq> None \<and> update_payment_status plan db i v = Inr db''"
  then show "sales_only_for_done db''"
    using sales_only_for_done_update by blast
next
  assume "update_payment_status plan db i None = Inr db0"
  from update_to_null_Inr[OF this]
  show "sales_records db0 = sales_records db" and "invoice_items db0 = invoice_items db"
    by (auto simp: set_status_fields)
qed

theorem sales_records_only_for_done_invoices_witness:
  "sales_only_for_done empty_database \<and>
   insert_invoice empty_database 100 (input_1 (Given (Some ''pending'')))
     = Inr (bare (Some ''pending'')) \<and>
   sales_only_for_done (bare (Some ''pending'')) \<and>
   sales_only_for_done (shop (Some ''pending'') []) \<and>
   update_payment_status rev (shop (Some ''pending'') []) 1 (Some ''done'')
     = Inr (shop (Some ''done'') [sale_a]) \<and>
   sales_only_for_done (shop (Some ''done'') [sale_a]) \<and>
   update_payment_status rev (shop (Some ''done'') [sale_a]) 1 None = Inr (shop None [sale_a]) \<and>
   sales_records (shop None [sale_a]) = sales_records (shop (Some ''done'') [sale_a])"
proof -
  have e: "sales_only_for_done empty_database"
    by (simp add: sales_only_for_done_def refs_done_def empty_database_def)
  have i: "insert_invoice empty_database 100 (input_1 (Given (Some ''pending'')))
             = Inr (bare (Some ''pending''))"
    using insert_first_example[of "Given (Some ''pending'')"]
    by (simp add: check_payment_status_iff)
  have s: "sales_only_for_done (shop (Some ''pending'') [])"
    by (simp add: sales_only_for_done_def refs_done_def shop_def)
  have u: "update_payment_status rev (shop (Some ''pending'') []) 1 (Some ''done'')
             = Inr (shop (Some ''done'') [sale_a])"
    using pending_to_done_example[OF row_order_rev, of "[]"] by simp
  have v: "Some ''done'' \<noteq> (None :: string option)" by simp
  have n: "update_payment_status rev (shop (Some ''done'') [sale_a]) 1 None
             = Inr (shop None [sale_a])"
    by (rule other_change_example) (simp_all add: check_payment_status_iff)
  from sales_records_only_for_done_invoices
         [where db = empty_database and now = 100
            and inp = "input_1 (Given (Some ''pending''))" and db' = "bare (Some ''pending'')"]
       e i
  have 1: "sales_only_for_done (bare (Some ''pending''))" by blast
  from sales_records_only_for_done_invoices
         [where db = "shop (Some ''pending'') []" and v = "Some ''done''" and plan = rev
            and i = 1 and db'' = "shop (Some ''done'') [sale_a]"]
       s u v
  have 2: "sales_only_for_done (shop (Some ''done'') [sale_a])" by blast
  from sales_records_only_for_done_invoices
         [where db = "shop (Some ''done'') [sale_a]" and plan = rev and i = 1
            and ?db0.0 = "shop None [sale_a]"]
       n
  have 3: "sales_records (shop None [sale_a]) = sales_records (shop (Some ''done'') [sale_a])"
    by blast
  from e i 1 s u 2 n 3 show ?thesis by blast
qed

text \<open>
  C1 as stated fails, in both directions. A pending invoice without items satisfies the
  stated invariant; the update to done emits one sales record per item, so none, and
  leaves the invoice done with no sales record. And a done invoice with its sales record
  satisfies the stated invariant; the update of its payment status to NULL is accepted,
  no branch of the trigger deletes the record, and the invoice, no longer done, keeps it:
  neither the stated invariant nor its kept direction holds afterwards.
\<close>

theorem done_invoice_without_sales_records:
  "sales_iff_done (bare (Some ''pending'')) \<and>
   update_payment_status rev (bare (Some ''pending'')) 1 (Some ''done'') = Inr (bare (Some ''done'')) \<and>
   \<not> sales_iff_done (bare (Some ''done'')) \<and>
   sales_iff_done (shop (Some ''done'') [sale_a]) \<and>
   sales_only_for_done (shop (Some ''done'') [sale_a]) \<and>
   update_payment_status rev (shop (Some ''done'') [sale_a]) 1 None = Inr (shop None [sale_a]) \<and>
   \<not> sales_iff_done (shop None [sale_a]) \<and>
   \<not> sales_only_for_done (shop None [sale_a])"
proof -
  have "sales_iff_done (bare (Some ''pending''))"
    by (simp add: sales_iff_done_def bare_def invoice_1_def)
  moreover have "\<not> sales_iff_done (bare (Some ''done''))"
    by (simp add: sales_iff_done_def bare_def invoice_1_def)
  moreover have "sales_iff_done (shop (Some ''done'') [sale_a])"
    by (simp add: sales_iff_done_def shop_def invoice_1_def sale_a_def)
  moreover have "sales_only_for_done (shop (Some ''done'') [sale_a])"
    by (simp add: sales_only_for_done_def refs_done_def shop_def invoice_1_def sale_a_def)
  moreover have "update_payment_status rev (shop (Some ''done'') [sale_a]) 1 None
      = Inr (shop None [sale_a])"
    by (rule other_change_example) (simp_all add: check_payment_status_iff)
  moreover have "\<not> sales_iff_done (shop None [sale_a])"
    by (simp add: sales_iff_done_def shop_def invoice_1_def sale_a_def)
  moreover have "\<not> sales_only_for_done (shop None [sale_a])"
    by (simp add: sales_only_for_done_def refs_done_def shop_def invoice_1_def sale_a_def)
  ultimately show ?thesis using update_bare_example[OF row_order_rev] by blast
qed

lemma find_set_status:
  "find (\<lambda>r. inv_id r = i) invs = Some old \<Longrightarrow>
   find (\<lambda>r. inv_id r = i) (map (\<lambda>r. if inv_id r = i then r\<lparr>payment_status := v\<rparr> else r) invs)
     = Some (old\<lparr>payment_status := v\<rparr>)"
  by (induction invs) (auto split: if_splits)

lemma unchanged_status_Inr:
  assumes "find (\<lambda>r. inv_id r = i) (invoices db) = Some old"
    and "payment_status old = v"
    and "update_payment_status plan db i v = Inr db'"
  shows "db' = set_status db i v"
proof (cases "check_payment_status v")
  case True
  from update_found[OF assms(1) True] assms(2,3) show ?thesis by simp
next
  case False
  from update_rejected[OF assms(1) False] assms(3) show ?thesis by simp
qed

lemma done_pending_done_Inr:
  assumes f: "find (\<lambda>r. inv_id r = i) (invoices db) = Some old"
    and s: "payment_status old = Some ''done''"
    and u1: "update_payment_status plan db i (Some ''pending'') = Inr db1"
    and u2: "update_payment_status plan db1 i (Some ''done'') = Inr db2"
  shows "\<exists>rs. sales_records db2 = filter (\<lambda>r. sr_invoice_id r \<noteq> Some i) (sales_records db) @ rs \<and>
          list_all2 (is_snapshot (products db) old) (plan (items_of db i)) rs"
proof -
  let ?old1 = "old\<lparr>payment_status := Some ''pending''\<rparr>"
  have db1: "db1 = delete_sales_records (set_status db i (Some ''pending'')) i"
    using done_to_pending_Inr[OF f s] u1 by simp
  have f1: "find (\<lambda>r. inv_id r = i) (invoices db1) = Some ?old1"
    unfolding db1 delete_sales_records_fields set_status_def
    using find_set_status[OF f] by simp
  have s1: "payment_status ?old1 = Some ''pending''" by simp
  from pending_to_done_Inr[OF f1 s1 u2] obtain rs where
    rs: "db2 = (set_status db1 i (Some ''done''))\<lparr>sales_records := sales_records db1 @ rs\<rparr>"
        "list_all2 (is_snapshot (products db1) ?old1) (plan (items_of db1 i)) rs"
    by blast
  have "products db1 = products db" "items_of db1 i = items_of db i"
    by (simp_all add: db1 delete_sales_records_fields set_status_fields items_of_def)
  with rs(2) have "list_all2 (is_snapshot (products db) old) (plan (items_of db i)) rs"
    by (simp add: is_snapshot_status)
  moreover have "sales_records db2
      = filter (\<lambda>r. sr_invoice_id r \<noteq> Some i) (sales_records db) @ rs"
    by (simp add: rs(1) db1 delete_sales_records_eq set_status_fields)
  ultimately show ?thesis by blast
qed

text \<open>
  C4, as the code has it. An update that leaves the payment status as it was (done to
  done, pending to pending) leaves the sales records and the items as they were. Taking a
  done invoice to pending and back to done leaves exactly one sales record per item for
  it, in the order in which the \<^verbatim>\<open>INSERT ... SELECT\<close> yields the items, and the records of
  other invoices as they were; the items are the rows of \<open>invoice_items\<close> with its id,
  each once, so that the invoice has as many sales records as items. (The emission
  itself has no guard: see the counterexample.)
\<close>

theorem unchanged_status_and_round_trip_do_not_duplicate:
  "(find (\<lambda>r. inv_id r = i) (invoices db) = Some old \<and> payment_status old = v \<and>
    update_payment_status plan db i v = Inr db' \<longrightarrow>
      sales_records db' = sales_records db \<and> invoice_items db' = invoice_items db) \<and>
   (find (\<lambda>r. inv_id r = i) (invoices db) = Some old \<and> payment_status old = Some ''done'' \<and>
    update_payment_status plan db i (Some ''pending'') = Inr db1 \<and>
    update_payment_status plan db1 i (Some ''done'') = Inr db2 \<longrightarrow>
      list_all2 (is_snapshot (products db) old) (plan (items_of db i))
        (filter (\<lambda>r. sr_invoice_id r = Some i) (sales_records db2)) \<and>
      filter (\<lambda>r. sr_invoice_id r \<noteq> Some i) (sales_records db2)
        = filter (\<lambda>r. sr_invoice_id r \<noteq> Some i) (sales_records db) \<and>
      (row_order plan \<longrightarrow>
         mset (plan (items_of db i))
           = mset (filter (\<lambda>ii. ii_invoice_id ii = i) (invoice_items db)) \<and>
         length (filter (\<lambda>r. sr_invoice_id r = Some i) (sales_records db2))
           = length (filter (\<lambda>ii. ii_invoice_id ii = i) (invoice_items db))))"
proof (intro conjI impI)
  assume a: "find (\<lambda>r. inv_id r = i) (invoices db) = Some old \<and> payment_status old = v \<and>
    update_payment_status plan db i v = Inr db'"
  then have "db' = set_status db i v"
    using unchanged_status_Inr[of i db old v plan db'] by blast
  then show "sales_records db' = sales_records db" "invoice_items db' = invoice_items db"
    by (simp_all add: set_status_fields)
next
  assume a: "find (\<lambda>r. inv_id r = i) (invoices db) = Some old \<and>
    payment_status old = Some ''done'' \<and>
    update_payment_status plan db i (Some ''pending'') = Inr db1 \<and>
    update_payment_status plan db1 i (Some ''done'') = Inr db2"
  then obtain rs where
    rs: "sales_records db2 = filter (\<lambda>r. sr_invoice_id r \<noteq> Some i) (sales_records db) @ rs"
        "list_all2 (is_snapshot (products db) old) (plan (items_of db i)) rs"
    using done_pending_done_Inr[of i db old plan db1 db2] by blast
  from a have "inv_id old = i" using find_inv_id by blast
  with list_all2_snapshot_invoice_id[OF rs(2)]
  have all: "\<forall>r \<in> set rs. sr_invoice_id r = Some i" by simp
  then have 1: "filter (\<lambda>r. sr_invoice_id r = Some i) rs = rs"
    and 2: "filter (\<lambda>r. sr_invoice_id r \<noteq> Some i) rs = []"
    by (simp_all add: filter_id_conv filter_empty_conv)
  show l: "list_all2 (is_snapshot (products db) old) (plan (items_of db i))
        (filter (\<lambda>r. sr_invoice_id r = Some i) (sales_records db2))"
    using rs(2) by (simp add: rs(1) 1)
  show "filter (\<lambda>r. sr_invoice_id r \<noteq> Some i) (sales_records db2)
        = filter (\<lambda>r. sr_invoice_id r \<noteq> Some i) (sales_records db)"
    by (simp add: rs(1) 2)
  assume ro: "row_order plan"
  then show m: "mset (plan (items_of db i))
        = mset (filter (\<lambda>ii. ii_invoice_id ii = i) (invoice_items db))"
    by (simp add: row_order_def items_of_def)
  show "length (filter (\<lambda>r. sr_invoice_id r = Some i) (sales_records db2))
        = length (filter (\<lambda>ii. ii_invoice_id ii = i) (invoice_items db))"
    using list_all2_length_rev[OF l] mset_eq_length[OF m] by simp
qed

theorem unchanged_status_and_round_trip_do_not_duplicate_witness:
  "find (\<lambda>r. inv_id r = 1) (invoices (shop (Some ''done'') [sale_a]))
     = Some (invoice_1 (Some ''done'')) \<and>
   row_order rev \<and>
   update_payment_status rev (shop (Some ''done'') [sale_a]) 1 (Some ''done'')
     = Inr (shop (Some ''done'') [sale_a]) \<and>
   update_payment_status rev (shop (Some ''done'') [sale_a]) 1 (Some ''pending'')
     = Inr (shop (Some ''pending'') []) \<and>
   update_payment_status rev (shop (Some ''pending'') []) 1 (Some ''done'')
     = Inr (shop (Some ''done'') [sale_a]) \<and>
   list_all2 (is_snapshot (products (shop (Some ''done'') [sale_a])) (invoice_1 (Some ''done'')))
     (rev (items_of (shop (Some ''done'') [sale_a]) 1))
     (filter (\<lambda>r. sr_invoice_id r = Some 1) (sales_records (shop (Some ''done'') [sale_a]))) \<and>
   length (filter (\<lambda>r. sr_invoice_id r = Some 1) (sales_records (shop (Some ''done'') [sale_a])))
     = length (filter (\<lambda>ii. ii_invoice_id ii = 1)
         (invoice_items (shop (Some ''done'') [sale_a])))"
proof -
  have f: "find (\<lambda>r. inv_id r = 1) (invoices (shop (Some ''done'') [sale_a]))
             = Some (invoice_1 (Some ''done''))"
    by (simp add: shop_def invoice_1_def)
  have s: "payment_status (invoice_1 (Some ''done'')) = Some ''done''"
    by (simp add: invoice_1_def)
  have c: "check_payment_status (Some ''done'')"
    by (simp add: check_payment_status_iff)
  have u0: "update_payment_status rev (shop (Some ''done'') [sale_a]) 1 (Some ''done'')
              = Inr (shop (Some ''done'') [sale_a])"
    unfolding update_found[OF f c] by (simp add: set_status_def shop_def invoice_1_def)
  note u1 = done_to_pending_example[of rev]
  have u2: "update_payment_status rev (shop (Some ''pending'') []) 1 (Some ''done'')
              = Inr (shop (Some ''done'') [sale_a])"
    using pending_to_done_example[OF row_order_rev, of "[]"] by simp
  from unchanged_status_and_round_trip_do_not_duplicate
         [where i = 1 and db = "shop (Some ''done'') [sale_a]"
            and old = "invoice_1 (Some ''done'')" and v = "Some ''done''" and plan = rev
            and db' = "shop (Some ''done'') [sale_a]" and ?db1.0 = "shop (Some ''pending'') []"
            and ?db2.0 = "shop (Some ''done'') [sale_a]"]
       f s u0 u1 u2 row_order_rev
  show ?thesis by blast
qed

text \<open>
  C4 as stated fails. The invoice of \<open>shop\<close> is done and fully materialised (one item, one
  sales record); running the emission of \<open>create_sales_records_on_invoice\<close> for it again
  stores the record a second time. The update trigger does the same on a path of status
  updates: done to NULL and NULL to pending delete nothing, and pending to done emits
  again.
\<close>

theorem emission_again_duplicates:
  "create_sales_records_on_invoice rev (shop (Some ''done'') [sale_a]) (invoice_1 (Some ''done''))
     = Inr (shop (Some ''done'') [sale_a, sale_a]) \<and>
   update_payment_status rev (shop (Some ''done'') [sale_a]) 1 None = Inr (shop None [sale_a]) \<and>
   update_payment_status rev (shop None [sale_a]) 1 (Some ''pending'')
     = Inr (shop (Some ''pending'') [sale_a]) \<and>
   update_payment_status rev (shop (Some ''pending'') [sale_a]) 1 (Some ''done'')
     = Inr (shop (Some ''done'') [sale_a, sale_a])"
proof -
  have "create_sales_records_on_invoice rev (shop (Some ''done'') [sale_a]) (invoice_1 (Some ''done''))
     = Inr (shop (Some ''done'') [sale_a, sale_a])"
    using create_again_example[OF row_order_rev, of "[sale_a]"] by simp
  moreover have "update_payment_status rev (shop (Some ''done'') [sale_a]) 1 None
     = Inr (shop None [sale_a])"
    by (rule other_change_example) (simp_all add: check_payment_status_iff)
  moreover have "update_payment_status rev (shop None [sale_a]) 1 (Some ''pending'')
     = Inr (shop (Some ''pending'') [sale_a])"
    by (rule other_change_example) (simp_all add: check_payment_status_iff)
  moreover have "update_payment_status rev (shop (Some ''pending'') [sale_a]) 1 (Some ''done'')
     = Inr (shop (Some ''done'') [sale_a, sale_a])"
    using pending_to_done_example[OF row_order_rev, of "[sale_a]"] by simp
  ultimately show ?thesis by blast
qed

section \<open>The payment status column\<close>

lemma check_is_allowed: "check_payment_status v = status_allowed v"
  by (simp add: check_payment_status_iff status_allowed_def)

lemma insert_rejects_other_status:
  assumes "in_payment_status inp = Given (Some s)" and "s \<noteq> ''done''" and "s \<noteq> ''pending''"
  shows "\<exists>e. insert_invoice db now inp = Inl e"
proof (cases "generate_invoice_number (invoices db) (in_invoice_number inp)")
  case (Inl e)
  then show ?thesis by (simp add: insert_invoice_def)
next
  case (Inr num)
  with assms show ?thesis
    by (simp add: insert_invoice_def check_payment_status_iff)
qed

lemma all_status_allowed_insert:
  assumes "all_status_allowed db" and "insert_invoice db now inp = Inr db'"
  shows "all_status_allowed db'"
proof -
  from insert_invoice_Inr[OF assms(2)] obtain row where
    "db' = db\<lparr>invoices := invoices db @ [row]\<rparr>" "check_payment_status (payment_status row)"
    by force
  with assms(1) show ?thesis
    by (simp add: all_status_allowed_def check_is_allowed)
qed

lemma list_all_set_status:
  "list_all (\<lambda>r. status_allowed (payment_status r)) invs \<Longrightarrow> status_allowed v \<Longrightarrow>
   list_all (\<lambda>r. status_allowed (payment_status r))
     (map (\<lambda>r. if inv_id r = i then r\<lparr>payment_status := v\<rparr> else r) invs)"
  by (induction invs) simp_all

lemma update_Inr_invoices:
  assumes "find (\<lambda>r. inv_id r = i) (invoices db) = Some old"
    and "update_payment_status plan db i v = Inr db'"
  shows "check_payment_status v \<and> invoices db' = invoices (set_status db i v)"
proof -
  have c: "check_payment_status v"
  proof (rule ccontr)
    assume "\<not> check_payment_status v"
    from update_rejected[OF assms(1) this] assms(2) show False by simp
  qed
  let ?db1 = "set_status db i v"
  let ?new = "old\<lparr>payment_status := v\<rparr>"
  have "invoices db' = invoices ?db1"
  proof (cases "payment_status old = v")
    case True
    with update_found[OF assms(1) c] assms(2) show ?thesis by simp
  next
    case False
    with update_found[OF assms(1) c] assms(2)
    have m: "manage_sales_records_on_invoice_update plan ?db1 old ?new = Inr db'" by simp
    show ?thesis
    proof (cases "insert_sales_records plan ?db1 ?new")
      case (Inl e)
      with m show ?thesis
        by (auto simp: manage_sales_records_on_invoice_update_def delete_sales_records_def
            split: if_splits)
    next
      case (Inr db2)
      from insert_sales_records_Inr[OF this] have "invoices db2 = invoices ?db1" by auto
      with m Inr show ?thesis
        by (auto simp: manage_sales_records_on_invoice_update_def delete_sales_records_def
            split: if_splits)
    qed
  qed
  with c show ?thesis by simp
qed

lemma all_status_allowed_update:
  assumes "all_status_allowed db" and "update_payment_status plan db i v = Inr db'"
  shows "all_status_allowed db'"
proof (cases "find (\<lambda>r. inv_id r = i) (invoices db)")
  case None
  with assms show ?thesis by (simp add: update_not_found)
next
  case (Some old)
  from update_Inr_invoices[OF Some assms(2)] assms(1) show ?thesis
    by (simp add: all_status_allowed_def set_status_def check_is_allowed list_all_set_status)
qed

text \<open>
  C10, as the schema has it. Every row of \<open>invoices\<close> has a payment status that is NULL,
  'done' or 'pending': this is kept by every insert and every update of the status, and
  any other text is rejected on insert and, by the check constraint, on update. An invoice
  inserted without a payment status is stored with 'done'.
\<close>

theorem payment_status_checked_and_defaulted:
  "(all_status_allowed db \<and> insert_invoice db now inp = Inr db' \<longrightarrow> all_status_allowed db') \<and>
   (all_status_allowed db \<and> update_payment_status plan db i v = Inr db'' \<longrightarrow> all_status_allowed db'') \<and>
   (in_payment_status inp = Omitted \<and> insert_invoice db now inp = Inr db' \<longrightarrow>
      (\<exists>row. invoices db' = invoices db @ [row] \<and> inv_id row = in_id inp \<and>
             payment_status row = Some ''done'')) \<and>
   (in_payment_status inp = Given (Some s) \<and> s \<noteq> ''done'' \<and> s \<noteq> ''pending'' \<longrightarrow>
      (\<exists>e. insert_invoice db now inp = Inl e)) \<and>
   (find (\<lambda>r. inv_id r = i) (invoices db) = Some old \<and> s \<noteq> ''done'' \<and> s \<noteq> ''pending'' \<longrightarrow>
      update_payment_status plan db i (Some s) = Inl Check_violation)"
proof (intro conjI impI)
  assume "all_status_allowed db \<and> insert_invoice db now inp = Inr db'"
  then show "all_status_allowed db'" using all_status_allowed_insert by blast
next
  assume "all_status_allowed db \<and> update_payment_status plan db i v = Inr db''"
  then show "all_status_allowed db''" using all_status_allowed_update by blast
next
  assume a: "in_payment_status inp = Omitted \<and> insert_invoice db now inp = Inr db'"
  then have "insert_invoice db now inp = Inr db'" by simp
  from insert_invoice_Inr[OF this] a
  show "\<exists>row. invoices db' = invoices db @ [row] \<and> inv_id row = in_id inp \<and>
             payment_status row = Some ''done''"
    by force
next
  assume "in_payment_status inp = Given (Some s) \<and> s \<noteq> ''done'' \<and> s \<noteq> ''pending''"
  then show "\<exists>e. insert_invoice db now inp = Inl e"
    using insert_rejects_other_status by blast
next
  assume a: "find (\<lambda>r. inv_id r = i) (invoices db) = Some old \<and> s \<noteq> ''done'' \<and> s \<noteq> ''pending''"
  then have "\<not> check_payment_status (Some s)" by (simp add: check_payment_status_iff)
  with a show "update_payment_status plan db i (Some s) = Inl Check_violation"
    using update_rejected by blast
qed

theorem payment_status_checked_and_defaulted_witness:
  "all_status_allowed empty_database \<and>
   insert_invoice empty_database 100 (input_1 Omitted) = Inr (bare (Some ''done'')) \<and>
   all_status_allowed (bare (Some ''done'')) \<and>
   (\<exists>row. invoices (bare (Some ''done'')) = invoices empty_database @ [row] \<and>
          inv_id row = in_id (input_1 Omitted) \<and> payment_status row = Some ''done'') \<and>
   (\<exists>e. insert_invoice empty_database 100 (input_1 (Given (Some ''paid''))) = Inl e) \<and>
   update_payment_status rev (bare (Some ''done'')) 1 (Some ''paid'') = Inl Check_violation"
proof -
  have e: "all_status_allowed empty_database"
    by (simp add: all_status_allowed_def empty_database_def)
  have i: "insert_invoice empty_database 100 (input_1 Omitted) = Inr (bare (Some ''done''))"
    using insert_first_example[of Omitted] by (simp add: check_payment_status_iff)
  have o: "in_payment_status (input_1 Omitted) = Omitted"
    by (simp add: input_1_def)
  have g: "in_payment_status (input_1 (Given (Some ''paid''))) = Given (Some ''paid'')"
    by (simp add: input_1_def)
  have n: "''paid'' \<noteq> ''done''" "''paid'' \<noteq> ''pending''" by simp_all
  have f: "find (\<lambda>r. inv_id r = 1) (invoices (bare (Some ''done''))) = Some (invoice_1 (Some ''done''))"
    by (simp add: bare_def invoice_1_def)
  from payment_status_checked_and_defaulted
         [where db = empty_database and now = 100 and inp = "input_1 Omitted"
            and db' = "bare (Some ''done'')"] e i o
  have 1: "all_status_allowed (bare (Some ''done''))"
    and 2: "\<exists>row. invoices (bare (Some ''done'')) = invoices empty_database @ [row] \<and>
          inv_id row = in_id (input_1 Omitted) \<and> payment_status row = Some ''done''"
    by blast+
  from payment_status_checked_and_defaulted
         [where db = empty_database and now = 100 and inp = "input_1 (Given (Some ''paid''))"
            and s = "''paid''"] g n
  have 3: "\<exists>e. insert_invoice empty_database 100 (input_1 (Given (Some ''paid''))) = Inl e"
    by blast
  from payment_status_checked_and_defaulted
         [where db = "bare (Some ''done'')" and i = 1 and s = "''paid''" and plan = rev
            and old = "invoice_1 (Some ''done'')"] f n
  have 4: "update_payment_status rev (bare (Some ''done'')) 1 (Some ''paid'') = Inl Check_violation"
    by blast
  from e i 1 2 3 4 show ?thesis by blast
qed

text \<open>
  C10 as stated fails: the column is nullable and the check passes on NULL, so an invoice
  inserted with an explicit NULL is stored with a payment status that is neither
  'pending' nor 'done'.
\<close>

theorem null_payment_status_is_stored:
  "insert_invoice empty_database 100 (input_1 (Given None)) = Inr (bare None) \<and>
   map payment_status (invoices (bare None)) = [None]"
proof -
  have "insert_invoice empty_database 100 (input_1 (Given None)) = Inr (bare None)"
    using insert_first_example[of "Given None"] by (simp add: check_payment_status_iff)
  then show ?thesis by (simp add: bare_def invoice_1_def)
qed

section \<open>Invoice numbers\<close>

lemma text_of_nat_examples:
  "text_of_nat 2 = ''2''" "text_of_nat 3 = ''3''" "text_of_nat 1000000 = ''1000000''"
  by (simp_all add: text_of_nat.simps digit_char_def)

lemma substring_inv_examples:
  "substring_inv ''INV-000001'' = Some ''000001''"
  "substring_inv ''INV-000002'' = Some ''000002''"
  "substring_inv ''INV-999999'' = Some ''999999''"
  by (simp_all add: is_digit_def)

lemma nat_of_digits_examples:
  "nat_of_digits ''000001'' = 1" "nat_of_digits ''000002'' = 2" "nat_of_digits ''999999'' = 999999"
  by (simp_all add: nat_of_digits_def digit_value_def)

lemma lpad_examples:
  "lpad ''2'' 6 (CHR ''0'') = ''000002''" "lpad ''3'' 6 (CHR ''0'') = ''000003''"
  "lpad ''1000000'' 6 (CHR ''0'') = ''100000''"
  by (simp_all add: lpad_def eval_nat_numeral)

text \<open>Three creations in a row, from the empty table.\<close>

lemma three_sequential_numbers:
  "generate_invoice_number [] None = Inr ''INV-000001''"
  "generate_invoice_number [invoice_numbered 11 ''INV-000001''] None = Inr ''INV-000002''"
  "generate_invoice_number [invoice_numbered 11 ''INV-000001'', invoice_numbered 12 ''INV-000002'']
     None = Inr ''INV-000003''"
proof -
  show "generate_invoice_number [] None = Inr ''INV-000001''"
    by (rule first_invoice_number)
  have "next_number [invoice_numbered 11 ''INV-000001''] = Inr 2"
    by (simp add: next_number_def List.map_filter_def invoice_numbered_def
        substring_inv_examples cast_integer_def nat_of_digits_examples del: substring_inv.simps)
  then show "generate_invoice_number [invoice_numbered 11 ''INV-000001''] None = Inr ''INV-000002''"
    by (simp add: generate_invoice_number_def text_of_nat_examples lpad_examples)
  have "next_number [invoice_numbered 11 ''INV-000001'', invoice_numbered 12 ''INV-000002''] = Inr 3"
    by (simp add: next_number_def List.map_filter_def invoice_numbered_def
        substring_inv_examples cast_integer_def nat_of_digits_examples del: substring_inv.simps)
  then show "generate_invoice_number
      [invoice_numbered 11 ''INV-000001'', invoice_numbered 12 ''INV-000002''] None
      = Inr ''INV-000003''"
    by (simp add: generate_invoice_number_def text_of_nat_examples lpad_examples)
qed

lemma three_sequential_inserts:
  "insert_invoice (invoices_only []) 100 (input_unnumbered 11)
     = Inr (invoices_only [invoice_numbered 11 ''INV-000001''])"
  "insert_invoice (invoices_only [invoice_numbered 11 ''INV-000001'']) 100 (input_unnumbered 12)
     = Inr (invoices_only [invoice_numbered 11 ''INV-000001'', invoice_numbered 12 ''INV-000002''])"
  "insert_invoice (invoices_only [invoice_numbered 11 ''INV-000001'', invoice_numbered 12 ''INV-000002''])
       100 (input_unnumbered 13)
     = Inr (invoices_only [invoice_numbered 11 ''INV-000001'', invoice_numbered 12 ''INV-000002'',
              invoice_numbered 13 ''INV-000003''])"
  by (simp_all add: insert_invoice_def invoices_only_def input_unnumbered_def
      three_sequential_numbers check_payment_status_iff)
     (simp_all add: invoice_numbered_def)

text \<open>
  C5 at a failing input. The table holds one invoice, numbered INV-999999. The next number
  is 1000000, whose text has seven characters, and \<^verbatim>\<open>LPAD(..., 6, '0')\<close> keeps the first
  six: the invoice inserted without a number is stored as INV-100000, not as INV- followed
  by 1000000.
\<close>

theorem lpad_cuts_the_millionth_number:
  "next_number [invoice_numbered 11 ''INV-999999''] = Inr 1000000 \<and>
   generate_invoice_number [invoice_numbered 11 ''INV-999999''] None = Inr ''INV-100000'' \<and>
   insert_invoice (invoices_only [invoice_numbered 11 ''INV-999999'']) 100 (input_unnumbered 12)
     = Inr (invoices_only [invoice_numbered 11 ''INV-999999'', invoice_numbered 12 ''INV-100000''])"
proof -
  have n: "next_number [invoice_numbered 11 ''INV-999999''] = Inr 1000000"
    by (simp add: next_number_def List.map_filter_def invoice_numbered_def
        substring_inv_examples cast_integer_def nat_of_digits_examples del: substring_inv.simps)
  then have g: "generate_invoice_number [invoice_numbered 11 ''INV-999999''] None = Inr ''INV-100000''"
    by (simp add: generate_invoice_number_def text_of_nat_examples lpad_examples)
  have "insert_invoice (invoices_only [invoice_numbered 11 ''INV-999999'']) 100 (input_unnumbered 12)
     = Inr (invoices_only [invoice_numbered 11 ''INV-999999'', invoice_numbered 12 ''INV-100000''])"
    by (simp add: insert_invoice_def invoices_only_def input_unnumbered_def g
        check_payment_status_iff)
       (simp add: invoice_numbered_def)
  with n g show ?thesis by blast
qed


section \<open>Properties of the numbers\<close>

lemma pow2_powi: "pow2 e = 2 powi e"
  by (simp add: pow2_def power_int_def inverse_eq_divide power_one_over)

lemma pow2_pos: "0 < pow2 e"
  by (simp add: pow2_powi)

lemma pow2_add: "pow2 (a + b) = pow2 a * pow2 b"
  by (simp add: pow2_powi power_int_add)

lemma pow2_diff: "pow2 (a - b) = pow2 a / pow2 b"
  by (simp add: pow2_powi power_int_diff)

lemma pow2_mono: "a \<le> b \<Longrightarrow> pow2 a \<le> pow2 b"
  by (simp add: pow2_powi power_int_increasing)

lemma pow2_strict_mono: "a < b \<Longrightarrow> pow2 a < pow2 b"
  by (simp add: pow2_powi power_int_strict_increasing)

lemma pow2_less_cancel: "pow2 a < pow2 b \<Longrightarrow> a < b"
  using pow2_mono[of b a] by (cases "a < b") auto

lemma pow2_nat: "0 \<le> e \<Longrightarrow> pow2 e = of_int (2 ^ nat e)"
  by (simp add: pow2_def)

lemma floor_pos_bounds:
  fixes a :: rat
  assumes "1 \<le> a"
  shows "pow2 (bitlen \<lfloor>a\<rfloor> - 1) \<le> a" and "a < pow2 (bitlen \<lfloor>a\<rfloor>)" and "1 \<le> bitlen \<lfloor>a\<rfloor>"
proof -
  let ?n = "\<lfloor>a\<rfloor>"
  from assms have n: "0 < ?n" by simp
  note b = bitlen_bounds[OF n]
  from b n have "0 < nat (bitlen ?n)"
    by (cases "nat (bitlen ?n)") auto
  then show 1: "1 \<le> bitlen ?n" by simp
  have "(of_int (2 ^ nat (bitlen ?n - 1)) :: rat) \<le> of_int ?n"
    using b by (simp only: of_int_le_iff)
  also have "\<dots> \<le> a" by simp
  finally show "pow2 (bitlen ?n - 1) \<le> a"
    using 1 by (simp add: pow2_nat)
  have "?n + 1 \<le> 2 ^ nat (bitlen ?n)" using b by simp
  then have "(of_int (?n + 1) :: rat) \<le> of_int (2 ^ nat (bitlen ?n))"
    by (simp only: of_int_le_iff)
  moreover have "a < of_int (?n + 1)" by linarith
  ultimately show "a < pow2 (bitlen ?n)"
    using 1 by (simp add: pow2_nat)
qed

lemma binary_exponent_bounds:
  assumes "0 < a"
  shows "pow2 (binary_exponent a) \<le> a \<and> a < pow2 (binary_exponent a + 1)"
proof (cases "1 \<le> a")
  case True
  from floor_pos_bounds[OF True]
  show ?thesis
    using True by (simp add: binary_exponent_def Let_def)
next
  case False
  with assms have i: "1 \<le> 1 / a" by simp
  let ?b = "bitlen \<lfloor>1 / a\<rfloor>"
  from floor_pos_bounds[OF i] have l: "pow2 (?b - 1) \<le> 1 / a" and u: "1 / a < pow2 ?b"
    by simp_all
  have inv: "pow2 (- ?b) = 1 / pow2 ?b" "pow2 (- ?b + 1) = 1 / pow2 (?b - 1)"
    by (simp_all add: pow2_powi power_int_minus field_simps power_int_diff power_int_add)
  from u assms have lo: "pow2 (- ?b) < a"
    unfolding inv using pow2_pos[of ?b] by (simp add: field_simps)
  from l assms have hi: "a \<le> pow2 (- ?b + 1)"
    unfolding inv using pow2_pos[of "?b - 1"] by (simp add: field_simps)
  show ?thesis
  proof (cases "pow2 (- ?b + 1) \<le> a")
    case True
    with hi have "a = pow2 (- ?b + 1)" by simp
    moreover have "pow2 (- ?b + 1) < pow2 (- ?b + 1 + 1)"
      by (rule pow2_strict_mono) simp
    ultimately show ?thesis
      using False True by (simp add: binary_exponent_def Let_def)
  next
    case f: False
    then show ?thesis
      using False lo by (simp add: binary_exponent_def Let_def)
  qed
qed

lemma binary_exponent_unique:
  assumes "pow2 e \<le> a" and "a < pow2 (e + 1)"
  shows "binary_exponent a = e"
proof -
  from assms(1) pow2_pos[of e] have "0 < a" by simp
  note b = binary_exponent_bounds[OF this]
  from b assms have "pow2 e < pow2 (binary_exponent a + 1)" "pow2 (binary_exponent a) < pow2 (e + 1)"
    by simp_all
  from pow2_less_cancel[OF this(1)] pow2_less_cancel[OF this(2)] show ?thesis by simp
qed


lemma round_half_even_of_int: "round_half_even (of_int k) = k"
  by (simp add: round_half_even_def)

lemma round_half_even_ge: "of_int n \<le> y \<Longrightarrow> n \<le> round_half_even y"
proof -
  assume "of_int n \<le> y"
  then have "n \<le> \<lfloor>y\<rfloor>" by (simp add: le_floor_iff)
  then show ?thesis by (simp add: round_half_even_def)
qed

lemma round_half_even_le: "y \<le> of_int n \<Longrightarrow> round_half_even y \<le> n"
proof (cases "y = of_int n")
  case True
  then show ?thesis by (simp add: round_half_even_of_int)
next
  case False
  assume "y \<le> of_int n"
  with False have "y < of_int n" by simp
  then have "\<lfloor>y\<rfloor> < n" by (simp add: floor_less_iff)
  then show ?thesis by (simp add: round_half_even_def)
qed

lemma ulp_pos: "0 < ulp a"
  by (simp add: ulp_def pow2_pos)

lemma double_magnitude_ulp:
  "double_magnitude a = of_int (round_half_even (a / ulp a)) * ulp a"
  by (simp add: double_magnitude_def)

lemma double_magnitude_nonneg: "0 \<le> a \<Longrightarrow> 0 \<le> double_magnitude a"
proof -
  assume "0 \<le> a"
  then have "of_int 0 \<le> a / ulp a" using ulp_pos[of a] by simp
  from round_half_even_ge[OF this] show ?thesis
    unfolding double_magnitude_ulp using ulp_pos[of a] by simp
qed

lemma pow2_1074: "pow2 (- 1074) * 2 ^ 1074 = 1"
  by (simp add: pow2_def)

lemma ulp_on_grid: "\<exists>k. ulp a = of_int k * pow2 (- 1074)"
proof -
  let ?p = "max (binary_exponent a) (- 1022) - 52"
  have p: "0 \<le> ?p + 1074" by simp
  have "pow2 ?p = pow2 (?p + 1074) * pow2 (- 1074)"
    by (simp flip: pow2_add)
  also have "\<dots> = of_int (2 ^ nat (?p + 1074)) * pow2 (- 1074)"
    using pow2_nat[OF p] by simp
  finally show ?thesis unfolding ulp_def by blast
qed

lemma double_magnitude_on_grid: "\<exists>k. double_magnitude a = of_int k * pow2 (- 1074)"
proof -
  from ulp_on_grid[of a] obtain k where k: "ulp a = of_int k * pow2 (- 1074)" by blast
  have "double_magnitude a = of_int (round_half_even (a / ulp a) * k) * pow2 (- 1074)"
    unfolding double_magnitude_ulp by (simp add: k)
  then show ?thesis by blast
qed

lemma double_magnitude_positive:
  assumes "0 < a" and "a = of_int k * pow2 (- 1074)"
  shows "0 < double_magnitude a"
proof -
  have "1 \<le> a / ulp a"
  proof (cases "- 1022 \<le> binary_exponent a")
    case True
    then have "ulp a = pow2 (binary_exponent a - 52)" by (simp add: ulp_def max_def)
    also have "\<dots> \<le> pow2 (binary_exponent a)" by (rule pow2_mono) simp
    also have "\<dots> \<le> a" using binary_exponent_bounds[OF assms(1)] by simp
    finally show ?thesis using ulp_pos[of a] by simp
  next
    case False
    then have u: "ulp a = pow2 (- 1074)" by (simp add: ulp_def max_def)
    from assms pow2_pos[of "- 1074"] have "0 < (of_int k :: rat)"
      by (simp add: zero_less_mult_iff)
    then have "1 \<le> k" by simp
    then have "(1::rat) \<le> of_int k" by simp
    moreover have "a / ulp a = of_int k"
      unfolding u using pow2_pos[of "- 1074"] by (simp add: assms(2))
    ultimately show ?thesis by simp
  qed
  then have "of_int 1 \<le> a / ulp a" by simp
  from round_half_even_ge[OF this] have "(1::rat) \<le> of_int (round_half_even (a / ulp a))"
    by simp
  then show ?thesis
    unfolding double_magnitude_ulp using ulp_pos[of a]
    by (simp add: zero_less_mult_iff)
qed

lemma double_magnitude_le:
  assumes "0 < a"
  shows "double_magnitude a \<le> 2 * a + 1"
proof -
  let ?r = "round_half_even (a / ulp a)"
  have "?r \<le> \<lfloor>a / ulp a\<rfloor> + 1" by (simp add: round_half_even_def)
  then have "(of_int ?r :: rat) \<le> of_int (\<lfloor>a / ulp a\<rfloor> + 1)" by (simp only: of_int_le_iff)
  also have "\<dots> \<le> a / ulp a + 1" by simp
  finally have "of_int ?r * ulp a \<le> (a / ulp a + 1) * ulp a"
    using ulp_pos[of a] by (simp only: mult_le_cancel_right_pos)
  also have "\<dots> = a + ulp a" using ulp_pos[of a] by (simp add: field_simps)
  finally have 1: "double_magnitude a \<le> a + ulp a" by (simp add: double_magnitude_ulp)
  have "ulp a \<le> a + 1"
  proof (cases "- 1022 \<le> binary_exponent a")
    case True
    then have "ulp a = pow2 (binary_exponent a - 52)" by (simp add: ulp_def max_def)
    also have "\<dots> \<le> pow2 (binary_exponent a)" by (rule pow2_mono) simp
    also have "\<dots> \<le> a" using binary_exponent_bounds[OF assms(1)] by simp
    finally show ?thesis by simp
  next
    case False
    then have "ulp a = pow2 (- 1074)" by (simp add: ulp_def max_def)
    also have "\<dots> \<le> pow2 0" by (rule pow2_mono) simp
    finally show ?thesis using assms by (simp add: pow2_def)
  qed
  with 1 show ?thesis by simp
qed


lemma grid_iff: "grid a \<longleftrightarrow> (\<exists>k. a = of_int k * pow2 (- 1074))"
proof
  assume "grid a"
  then have "a * 2 ^ 1074 * pow2 (- 1074) = of_int \<lfloor>a * 2 ^ 1074\<rfloor> * pow2 (- 1074)"
    by (simp only: grid_def)
  then have "a = of_int \<lfloor>a * 2 ^ 1074\<rfloor> * pow2 (- 1074)"
    by (simp add: pow2_def)
  then show "\<exists>k. a = of_int k * pow2 (- 1074)" ..
next
  assume "\<exists>k. a = of_int k * pow2 (- 1074)"
  then obtain k where "a = of_int k * pow2 (- 1074)" ..
  then have "a * 2 ^ 1074 = of_int k" by (simp add: pow2_def)
  then show "grid a" by (simp add: grid_def)
qed

lemma grid_0: "grid 0"
  by (simp add: grid_def)

lemma grid_add: "grid a \<Longrightarrow> grid b \<Longrightarrow> grid (a + b)"
  unfolding grid_iff
proof -
  assume "\<exists>k. a = of_int k * pow2 (- 1074)" "\<exists>k. b = of_int k * pow2 (- 1074)"
  then obtain k l where "a = of_int k * pow2 (- 1074)" "b = of_int l * pow2 (- 1074)" by blast
  then have "a + b = of_int (k + l) * pow2 (- 1074)" by (simp add: algebra_simps)
  then show "\<exists>k. a + b = of_int k * pow2 (- 1074)" ..
qed

lemma grid_minus: "grid a \<Longrightarrow> grid (- a)"
  unfolding grid_iff
proof -
  assume "\<exists>k. a = of_int k * pow2 (- 1074)"
  then obtain k where "a = of_int k * pow2 (- 1074)" ..
  then have "- a = of_int (- k) * pow2 (- 1074)" by simp
  then show "\<exists>k. - a = of_int k * pow2 (- 1074)" ..
qed

lemma grid_abs: "grid a \<Longrightarrow> grid \<bar>a\<bar>"
  by (simp add: abs_if grid_minus)

lemma grid_double_magnitude: "grid (double_magnitude a)"
  unfolding grid_iff by (rule double_magnitude_on_grid)

lemma on_grid_to_double: "on_grid (to_double x)"
  by (simp add: to_double_def grid_0 grid_double_magnitude grid_minus)

lemma js_positive_to_double:
  assumes "grid x"
  shows "js_positive (to_double x) \<longleftrightarrow> 0 < x"
proof (cases "0 < x")
  case True
  from assms obtain k where "x = of_int k * pow2 (- 1074)" unfolding grid_iff ..
  from double_magnitude_positive[OF True this] True show ?thesis
    by (simp add: to_double_def)
next
  case False
  then have "0 \<le> \<bar>x\<bar>" by simp
  from double_magnitude_nonneg[OF this] False show ?thesis
    by (simp add: to_double_def)
qed

lemma to_double_of_int:
  assumes "\<bar>n\<bar> < 2 ^ 53"
  shows "to_double (of_int n) = Num (of_int n)"
proof (cases "n = 0")
  case True
  then show ?thesis by (simp add: to_double_def)
next
  case False
  let ?a = "\<bar>of_int n\<bar> :: rat"
  let ?e = "binary_exponent ?a"
  from False have pos: "0 < ?a" by simp
  note b = binary_exponent_bounds[OF pos]
  have a1: "1 \<le> ?a"
  proof -
    from False have "1 \<le> \<bar>n\<bar>" by simp
    then have "(of_int 1 :: rat) \<le> of_int \<bar>n\<bar>" by (simp only: of_int_le_iff)
    then show ?thesis by simp
  qed
  have a53: "?a < pow2 53"
  proof -
    from assms have "(of_int \<bar>n\<bar> :: rat) < of_int (2 ^ 53)" by (simp only: of_int_less_iff)
    then show ?thesis by (simp add: pow2_def)
  qed
  from b a1 have "pow2 0 < pow2 (?e + 1)" by (simp add: pow2_def)
  then have e0: "0 \<le> ?e" using pow2_less_cancel by fastforce
  from b a53 have "pow2 ?e < pow2 53" by simp
  then have e52: "?e \<le> 52" using pow2_less_cancel by fastforce
  have u: "ulp ?a = pow2 (?e - 52)" using e0 by (simp add: ulp_def max_def)
  have "1 / pow2 (?e - 52) = pow2 (52 - ?e)"
    using pow2_add[of "?e - 52" "52 - ?e"] pow2_pos[of "?e - 52"]
    by (simp add: pow2_def[of 0] field_simps)
  also have "\<dots> = of_int (2 ^ nat (52 - ?e))" using e52 by (simp add: pow2_nat)
  finally have i: "1 / pow2 (?e - 52) = of_int (2 ^ nat (52 - ?e))" .
  have "?a / ulp ?a = ?a * (1 / pow2 (?e - 52))" unfolding u by simp
  also have "\<dots> = of_int (\<bar>n\<bar> * 2 ^ nat (52 - ?e))" unfolding i by simp
  finally have "?a / ulp ?a = of_int (\<bar>n\<bar> * 2 ^ nat (52 - ?e))" .
  then have "double_magnitude ?a = ?a"
    unfolding double_magnitude_ulp
    by (simp only: round_half_even_of_int) (use ulp_pos[of ?a] in \<open>simp add: field_simps\<close>)
  moreover have "\<not> pow2 1024 \<le> ?a"
    using a53 pow2_mono[of 53 1024] by simp
  ultimately show ?thesis using False
    by (auto simp: to_double_def)
qed

lemma to_double_normal:
  assumes "pow2 e \<le> \<bar>x\<bar>" and "\<bar>x\<bar> < pow2 (e + 1)" and "- 1022 \<le> e" and "e \<le> 1022"
  shows "to_double x =
     Num ((if 0 < x then 1 else - 1)
            * (of_int (round_half_even (\<bar>x\<bar> / pow2 (e - 52))) * pow2 (e - 52)))"
proof -
  let ?a = "\<bar>x\<bar>"
  let ?u = "pow2 (e - 52)"
  have e: "binary_exponent ?a = e" by (rule binary_exponent_unique[OF assms(1,2)])
  have u: "ulp ?a = ?u" using assms(3) by (simp add: ulp_def e max_def)
  have upos: "0 < ?u" by (rule pow2_pos)
  have m: "double_magnitude ?a = of_int (round_half_even (?a / ?u)) * ?u"
    by (simp add: double_magnitude_ulp u)
  have p52: "pow2 e = 2 ^ 52 * ?u" "pow2 (e + 1) = 2 ^ 53 * ?u"
    using pow2_add[of "e - 52" 52] pow2_add[of "e - 52" 53]
    by (simp_all add: pow2_def[of 52] pow2_def[of 53] add.commute)
  from assms(1) have "of_int (2 ^ 52) \<le> ?a / ?u"
    unfolding p52 using upos by (simp add: field_simps)
  from round_half_even_ge[OF this] have lo: "2 ^ 52 \<le> round_half_even (?a / ?u)" .
  from assms(2) have "?a / ?u \<le> of_int (2 ^ 53)"
    unfolding p52 using upos by (simp add: field_simps)
  from round_half_even_le[OF this] have hi: "round_half_even (?a / ?u) \<le> 2 ^ 53" .
  from lo have "(0::rat) < of_int (round_half_even (?a / ?u))" by simp
  with upos have nz: "0 < double_magnitude ?a" by (simp add: m zero_less_mult_iff)
  from hi have "(of_int (round_half_even (?a / ?u)) :: rat) \<le> of_int (2 ^ 53)"
    by (simp only: of_int_le_iff)
  then have "double_magnitude ?a \<le> 2 ^ 53 * ?u"
    unfolding m using upos by simp
  also have "\<dots> = pow2 (e + 1)" by (simp add: p52)
  also have "\<dots> < pow2 1024" by (rule pow2_strict_mono) (use assms(4) in simp)
  finally have fin: "\<not> pow2 1024 \<le> double_magnitude ?a" by simp
  from assms(1) pow2_pos[of e] have x0: "x \<noteq> 0" by auto
  from nz have nz0: "double_magnitude ?a \<noteq> 0" by simp
  have "to_double x = Num (if 0 < x then double_magnitude ?a else - double_magnitude ?a)"
    by (simp only: to_double_def if_not_P[OF x0] if_not_P[OF fin] if_not_P[OF nz0])
  also have "\<dots> = Num ((if 0 < x then 1 else - 1) * double_magnitude ?a)"
    by simp
  finally show ?thesis unfolding m .
qed

lemma finite_to_double:
  assumes "\<bar>x\<bar> < 2 ^ 1000"
  shows "finite_value (to_double x) \<noteq> None"
proof (cases "x = 0")
  case True
  then show ?thesis by (simp add: to_double_def)
next
  case False
  then have "0 < \<bar>x\<bar>" by simp
  from double_magnitude_le[OF this] assms
  have "double_magnitude \<bar>x\<bar> < 2 * 2 ^ 1000 + 1" by simp
  also have "\<dots> \<le> (2::rat) ^ 1024" by simp
  finally have "\<not> pow2 1024 \<le> double_magnitude \<bar>x\<bar>" by (simp add: pow2_def)
  then show ?thesis by (simp add: to_double_def)
qed

lemma round_half_even_floor:
  assumes "of_int f \<le> y" and "y < of_int f + 1"
  shows "round_half_even y =
     (if y - of_int f < 1 / 2 then f
      else if 1 / 2 < y - of_int f then f + 1
      else if even f then f else f + 1)"
proof -
  from assms have "\<lfloor>y\<rfloor> = f" by (simp add: floor_unique)
  then show ?thesis by (simp add: round_half_even_def)
qed

lemma to_double_floor:
  assumes "pow2 e \<le> \<bar>x\<bar>" and "\<bar>x\<bar> < pow2 (e + 1)" and "- 1022 \<le> e" and "e \<le> 1022"
    and "of_int f \<le> \<bar>x\<bar> / pow2 (e - 52)" and "\<bar>x\<bar> / pow2 (e - 52) < of_int f + 1"
  shows "to_double x =
     Num ((if 0 < x then 1 else - 1)
            * (of_int (if \<bar>x\<bar> / pow2 (e - 52) - of_int f < 1 / 2 then f
                       else if 1 / 2 < \<bar>x\<bar> / pow2 (e - 52) - of_int f then f + 1
                       else if even f then f else f + 1)
               * pow2 (e - 52)))"
  unfolding to_double_normal[OF assms(1-4)] round_half_even_floor[OF assms(5,6)] ..


lemma on_grid_not_NaN: "on_grid x \<Longrightarrow> x \<noteq> Not_a_number"
  by (cases x) simp_all

lemma on_grid_zero_of_sign: "on_grid (zero_of_sign s)"
  by (simp add: zero_of_sign_def grid_0)

lemma on_grid_js_neg: "on_grid x \<Longrightarrow> on_grid (js_neg x)"
  by (cases x) (simp_all add: grid_minus grid_0)

lemma on_grid_js_add:
  assumes "on_grid x" and "on_grid y" and "finite_value y \<noteq> None"
  shows "on_grid (js_add x y)"
  using assms
  by (cases x; cases y)
     (simp_all add: js_add_def on_grid_zero_of_sign on_grid_to_double)

lemma js_positive_zero_of_sign: "\<not> js_positive (zero_of_sign s)"
  by (simp add: zero_of_sign_def)

lemma js_positive_difference:
  assumes "grid a" and "grid b"
  shows "js_positive (to_double (b - a)) \<longleftrightarrow> a < b"
proof -
  from grid_add[OF assms(2) grid_minus[OF assms(1)]] have "grid (b - a)" by simp
  from js_positive_to_double[OF this] show ?thesis by simp
qed

lemma comparator_positive:
  assumes "on_grid x" and "on_grid y"
  shows "js_positive (js_sub y x) \<longleftrightarrow> js_le x y \<and> \<not> js_le y x"
  using assms
  by (cases x; cases y)
     (auto simp: js_sub_def js_add_def js_le_def js_positive_zero_of_sign
        js_positive_to_double js_positive_difference grid_0 grid_minus)

lemma js_le_total: "on_grid x \<Longrightarrow> on_grid y \<Longrightarrow> js_le x y \<or> js_le y x"
  by (cases x; cases y) (auto simp: js_le_def)

lemma js_le_trans: "js_le x y \<Longrightarrow> js_le y z \<Longrightarrow> js_le x z"
  by (cases x; cases y; cases z) (simp_all add: js_le_def)

lemma set_insert_descending: "set (insert_descending k a bs) = insert a (set bs)"
  by (induction bs) auto

lemma mset_insert_descending: "mset (insert_descending k a bs) = add_mset a (mset bs)"
  by (induction bs) auto

lemma mset_sort_descending: "mset (sort_descending k xs) = mset xs"
  by (induction xs) (simp_all add: sort_descending_def mset_insert_descending)

lemma set_sort_descending: "set (sort_descending k xs) = set xs"
  using mset_sort_descending[of k xs, THEN arg_cong, of set_mset] by simp

lemma length_sort_descending: "length (sort_descending k xs) = length xs"
  using mset_sort_descending[of k xs, THEN arg_cong, of size] by simp

lemma distinct_map_sort_descending:
  "distinct (map f (sort_descending k xs)) = distinct (map f xs)"
proof -
  have "mset (map f (sort_descending k xs)) = mset (map f xs)"
    by (simp add: mset_sort_descending)
  then show ?thesis by (metis mset_eq_imp_distinct_iff)
qed

lemma sorted_insert_descending:
  assumes "sorted_wrt (\<lambda>a b. js_le (k b) (k a)) bs"
    and "\<forall>b \<in> set bs. on_grid (k b)" and "on_grid (k a)"
  shows "sorted_wrt (\<lambda>a b. js_le (k b) (k a)) (insert_descending k a bs)"
  using assms
proof (induction bs)
  case Nil
  then show ?case by simp
next
  case (Cons b bs)
  from Cons.prems have gb: "on_grid (k b)" and ga: "on_grid (k a)" by simp_all
  show ?case
  proof (cases "js_positive (js_sub (k b) (k a))")
    case True
    with comparator_positive[OF ga gb] have "js_le (k a) (k b)" by simp
    with True Cons show ?thesis by (auto simp: set_insert_descending)
  next
    case False
    with comparator_positive[OF ga gb] js_le_total[OF ga gb] have ba: "js_le (k b) (k a)"
      by blast
    have "\<forall>c \<in> set bs. js_le (k c) (k a)"
    proof
      fix c assume "c \<in> set bs"
      with Cons.prems(1) have "js_le (k c) (k b)" by simp
      from js_le_trans[OF this ba] show "js_le (k c) (k a)" .
    qed
    with False ba Cons.prems(1) show ?thesis by simp
  qed
qed

lemma sorted_sort_descending:
  assumes "\<forall>x \<in> set xs. on_grid (k x)"
  shows "sorted_wrt (\<lambda>a b. js_le (k b) (k a)) (sort_descending k xs)"
  using assms
proof (induction xs)
  case Nil
  then show ?case by (simp add: sort_descending_def)
next
  case (Cons x xs)
  then have "sorted_wrt (\<lambda>a b. js_le (k b) (k a)) (sort_descending k xs)" by simp
  moreover have "\<forall>b \<in> set (sort_descending k xs). on_grid (k b)"
    using Cons.prems by (simp add: set_sort_descending)
  moreover have "on_grid (k x)" using Cons.prems by simp
  ultimately have "sorted_wrt (\<lambda>a b. js_le (k b) (k a))
      (insert_descending k x (sort_descending k xs))"
    by (rule sorted_insert_descending)
  then show ?case by (simp add: sort_descending_def)
qed

lemma on_grid_foldl_js_add:
  assumes "on_grid a" and "\<forall>x \<in> set xs. on_grid x \<and> finite_value x \<noteq> None"
  shows "on_grid (foldl js_add a xs)"
  using assms by (induction xs arbitrary: a) (simp_all add: on_grid_js_add)

lemma on_grid_js_sum:
  "\<forall>x \<in> set xs. on_grid x \<and> finite_value x \<noteq> None \<Longrightarrow> on_grid (js_sum xs)"
  unfolding js_sum_def by (rule on_grid_foldl_js_add) (simp_all add: grid_0)

lemma Number_decimal_finite:
  assumes "fits_decimal d"
  shows "on_grid (Number_decimal d) \<and> finite_value (Number_decimal d) \<noteq> None"
proof -
  from assms have "\<bar>d\<bar> < 10000000000" by (simp add: fits_decimal_def)
  then have "(of_int \<bar>d\<bar> :: rat) < of_int 10000000000" by (simp only: of_int_less_iff)
  then have "\<bar>of_int d / 100 :: rat\<bar> < 2 ^ 1000" by simp
  from finite_to_double[OF this] show ?thesis
    by (simp add: Number_decimal_def on_grid_to_double)
qed

section \<open>Properties of the report pages\<close>

subsection \<open>Evaluation of the arithmetic\<close>

lemma to_double_numeral:
  "(numeral k :: int) < 2 ^ 53 \<Longrightarrow> to_double (numeral k) = Num (numeral k)"
  using to_double_of_int[of "numeral k"] by simp

lemma to_double_neg_numeral:
  "(numeral k :: int) < 2 ^ 53 \<Longrightarrow> to_double (- numeral k) = Num (- numeral k)"
  using to_double_of_int[of "- numeral k"] by simp

lemma to_double_one: "to_double 1 = Num 1"
  using to_double_of_int[of 1] by simp

lemma to_double_zero: "to_double 0 = Num 0"
  by (simp add: to_double_def)

lemma js_add_Num: "js_add (Num a) (Num b) = (if a + b = 0 then Num 0 else to_double (a + b))"
  by (auto simp: js_add_def zero_of_sign_def)

lemma js_sub_Num: "js_sub (Num a) (Num b) = (if a = b then Num 0 else to_double (a - b))"
  by (auto simp: js_sub_def js_add_def zero_of_sign_def)

lemma js_mul_Num:
  "js_mul (Num a) (Num b)
     = (if a * b = 0 then zero_of_sign ((a < 0) \<noteq> (b < 0)) else to_double (a * b))"
  by (simp add: js_mul_def)

lemma js_div_Num:
  "js_div (Num a) (Num b)
     = (if b = 0 then (if a = 0 then Not_a_number else infinity_of_sign ((a < 0) \<noteq> (b < 0)))
        else if a = 0 then zero_of_sign ((a < 0) \<noteq> (b < 0))
        else to_double (a / b))"
  by (simp add: js_div_def)

lemmas js_eval = to_double_numeral to_double_neg_numeral to_double_one to_double_zero
  js_add_Num js_sub_Num js_mul_Num js_div_Num zero_of_sign_def infinity_of_sign_def
  Number_decimal_def Number_nullable_def Number_integer_def

text \<open>
  The doubles of 0.1, 0.2 and 0.3, the double of three times the double of 0.1 (which is
  also the sum of the doubles of 0.1 and 0.2: 0.30000000000000004), and the difference
  between the double of 0.3 and that.
\<close>

lemma double_tenth: "to_double (1 / 10) = Num (3602879701896397 / 36028797018963968)"
  using to_double_floor[of "- 4" "1 / 10" 7205759403792793] by (simp add: pow2_def)

lemma double_fifth: "to_double (1 / 5) = Num (3602879701896397 / 18014398509481984)"
  using to_double_floor[of "- 3" "1 / 5" 7205759403792793] by (simp add: pow2_def)

lemma double_three_tenths: "to_double (3 / 10) = Num (5404319552844595 / 18014398509481984)"
  using to_double_floor[of "- 2" "3 / 10" 5404319552844595] by (simp add: pow2_def)

lemma double_tenth_again: "to_double (3602879701896397 / 36028797018963968) = Num (3602879701896397 / 36028797018963968)"
  using to_double_floor[of "- 4" "3602879701896397 / 36028797018963968" 7205759403792794] by (simp add: pow2_def)

lemma double_three_tenths_again: "to_double (5404319552844595 / 18014398509481984) = Num (5404319552844595 / 18014398509481984)"
  using to_double_floor[of "- 2" "5404319552844595 / 18014398509481984" 5404319552844595] by (simp add: pow2_def)

lemma double_three_times_tenth: "to_double (10808639105689191 / 36028797018963968) = Num (1351079888211149 / 4503599627370496)"
  using to_double_floor[of "- 2" "10808639105689191 / 36028797018963968" 5404319552844595] by (simp add: pow2_def)

lemma double_three_times_tenth_again: "to_double (1351079888211149 / 4503599627370496) = Num (1351079888211149 / 4503599627370496)"
  using to_double_floor[of "- 2" "1351079888211149 / 4503599627370496" 5404319552844596] by (simp add: pow2_def)

lemma double_small_difference: "to_double (- (1 / 18014398509481984)) = Num (- (1 / 18014398509481984))"
  using to_double_floor[of "- 54" "- (1 / 18014398509481984)" 4503599627370496] by (simp add: pow2_def)

lemma double_small_excess: "to_double (1 / 18014398509481984) = Num (1 / 18014398509481984)"
  using to_double_floor[of "- 54" "1 / 18014398509481984" 4503599627370496] by (simp add: pow2_def)

subsection \<open>Grouping\<close>

lemma map_of_upsert:
  "map_of (upsert k init f kvs)
     = (map_of kvs)(k \<mapsto> f (case map_of kvs k of None \<Rightarrow> init | Some v \<Rightarrow> v))"
  by (induction kvs) (auto simp: fun_eq_iff)

lemma keys_upsert_old: "k \<in> fst ` set kvs \<Longrightarrow> map fst (upsert k init f kvs) = map fst kvs"
  by (induction kvs) force+

lemma keys_upsert_new: "k \<notin> fst ` set kvs \<Longrightarrow> map fst (upsert k init f kvs) = map fst kvs @ [k]"
  by (induction kvs) auto

lemma keys_upsert:
  "map fst (upsert k init f kvs)
     = (if k \<in> set (map fst kvs) then map fst kvs else map fst kvs @ [k])"
  by (simp add: keys_upsert_old keys_upsert_new)

lemma key_set_upsert: "fst ` set (upsert k init f kvs) = insert k (fst ` set kvs)"
  using keys_upsert[of k init f kvs, THEN arg_cong, of set] by (auto simp: image_iff)

lemma distinct_upsert: "distinct (map fst kvs) \<Longrightarrow> distinct (map fst (upsert k init f kvs))"
  by (simp add: keys_upsert)

lemma distinct_fold_upsert:
  "distinct (map fst acc) \<Longrightarrow>
   distinct (map fst (fold (\<lambda>r. upsert (key r) (init r) (upd r)) rs acc))"
  by (induction rs arbitrary: acc) (simp_all add: distinct_upsert)

lemma keys_fold_upsert:
  "fst ` set (fold (\<lambda>r. upsert (key r) (init r) (upd r)) rs acc)
     = fst ` set acc \<union> key ` set rs"
  by (induction rs arbitrary: acc) (simp_all add: key_set_upsert)

text \<open>
  What a grouping loop leaves under a key: the fold of the updates of the records with
  that key, in their order, started from the entry that was there or else from the
  initial entry made for the first such record.
\<close>

lemma map_of_fold_upsert:
  "map_of (fold (\<lambda>r. upsert (key r) (init r) (upd r)) rs acc) k
     = (case map_of acc k of
          Some v \<Rightarrow> Some (fold upd (filter (\<lambda>r. key r = k) rs) v)
        | None \<Rightarrow>
            (case filter (\<lambda>r. key r = k) rs of
               [] \<Rightarrow> None
             | r0 # rest \<Rightarrow> Some (fold upd (r0 # rest) (init r0))))"
proof (induction rs arbitrary: acc)
  case Nil
  then show ?case by (simp split: option.splits)
next
  case (Cons r rs)
  show ?case
    by (simp add: Cons.IH map_of_upsert split: option.splits list.splits)
qed

lemma group_of_entry:
  assumes "(k, v) \<in> set (fold (\<lambda>r. upsert (key r) (init r) (upd r)) rs [])"
  shows "\<exists>r0 rest. filter (\<lambda>r. key r = k) rs = r0 # rest \<and> v = fold upd (r0 # rest) (init r0)"
proof -
  have "distinct (map fst (fold (\<lambda>r. upsert (key r) (init r) (upd r)) rs []))"
    by (rule distinct_fold_upsert) simp
  with assms have "map_of (fold (\<lambda>r. upsert (key r) (init r) (upd r)) rs []) k = Some v"
    by simp
  then show ?thesis
    by (simp add: map_of_fold_upsert split: list.splits)
qed


subsection \<open>Profits\<close>

lemma fold_profit_forEach:
  "fold profit_forEach data (a, b, c)
     = (foldl js_add a (map itemRevenue data), foldl js_add b (map itemCost data),
        fold (\<lambda>r. upsert (sr_product_id r) (new_product_profit r) (add_to_product_profit r))
          data c)"
  by (induction data arbitrary: a b c) (simp_all add: profit_forEach_def)

lemma sums_as_foldl:
  "quantity_of rs = foldl js_add (Num 0) (map (\<lambda>r. Number_integer (sr_quantity r)) rs)"
  "revenue_of rs = foldl js_add (Num 0) (map itemRevenue rs)"
  "cost_of rs = foldl js_add (Num 0) (map itemCost rs)"
  "profit_of rs = foldl js_add (Num 0) (map itemProfit rs)"
  by (simp_all add: quantity_of_def revenue_of_def cost_of_def profit_of_def js_sum_def
      itemRevenue_def[abs_def] itemCost_def[abs_def] itemProfit_def[abs_def])

lemma fold_add_to_product_profit:
  "pp_product_id (fold add_to_product_profit rs p) = pp_product_id p"
  "pp_product_name (fold add_to_product_profit rs p) = pp_product_name p"
  "pp_total_quantity (fold add_to_product_profit rs p)
     = foldl js_add (pp_total_quantity p) (map (\<lambda>r. Number_integer (sr_quantity r)) rs)"
  "pp_total_revenue (fold add_to_product_profit rs p)
     = foldl js_add (pp_total_revenue p) (map itemRevenue rs)"
  "pp_total_cost (fold add_to_product_profit rs p)
     = foldl js_add (pp_total_cost p) (map itemCost rs)"
  "pp_total_profit (fold add_to_product_profit rs p)
     = foldl js_add (pp_total_profit p) (map itemProfit rs)"
  by (induction rs arbitrary: p; simp add: add_to_product_profit_def)+

lemma getProfitData_fields:
  "totalRevenue (getProfitData s e rows) = revenue_of (select_range s e rows)"
  "totalCost (getProfitData s e rows) = cost_of (select_range s e rows)"
  "totalProfit (getProfitData s e rows)
     = js_sub (revenue_of (select_range s e rows)) (cost_of (select_range s e rows))"
  "profit_products (getProfitData s e rows)
     = sort_descending pp_total_profit
         (map (set_averages \<circ> snd)
            (fold (\<lambda>r. upsert (sr_product_id r) (new_product_profit r) (add_to_product_profit r))
               (select_range s e rows) []))"
  by (simp_all add: getProfitData_def fold_profit_forEach sums_as_foldl)

lemma set_averages_fields:
  "pp_product_id (set_averages p) = pp_product_id p"
  "pp_product_name (set_averages p) = pp_product_name p"
  "pp_total_quantity (set_averages p) = pp_total_quantity p"
  "pp_total_revenue (set_averages p) = pp_total_revenue p"
  "pp_total_cost (set_averages p) = pp_total_cost p"
  "pp_total_profit (set_averages p) = pp_total_profit p"
  "pp_avg_sale_price (set_averages p) = js_div (pp_total_revenue p) (pp_total_quantity p)"
  "pp_avg_cost_price (set_averages p) = js_div (pp_total_cost p) (pp_total_quantity p)"
  by (simp_all add: set_averages_def)

text \<open>What stands under a key of \<^verbatim>\<open>productProfits\<close> after the loop.\<close>

lemma productProfits_entry:
  assumes "(k, v) \<in> set (fold (\<lambda>r. upsert (sr_product_id r) (new_product_profit r)
                                   (add_to_product_profit r)) data [])"
  shows "pp_product_id v = k \<and>
     (\<exists>r0 rest. filter (\<lambda>r. sr_product_id r = k) data = r0 # rest \<and>
        pp_product_name v = sr_product_name r0) \<and>
     pp_total_quantity v = quantity_of (filter (\<lambda>r. sr_product_id r = k) data) \<and>
     pp_total_revenue v = revenue_of (filter (\<lambda>r. sr_product_id r = k) data) \<and>
     pp_total_cost v = cost_of (filter (\<lambda>r. sr_product_id r = k) data) \<and>
     pp_total_profit v = profit_of (filter (\<lambda>r. sr_product_id r = k) data)"
proof -
  from group_of_entry[OF assms] obtain r0 rest where
    g: "filter (\<lambda>r. sr_product_id r = k) data = r0 # rest"
    and v: "v = fold add_to_product_profit (r0 # rest) (new_product_profit r0)"
    by blast
  have "r0 \<in> set (filter (\<lambda>r. sr_product_id r = k) data)" by (simp add: g)
  then have k: "sr_product_id r0 = k" by simp
  have "pp_product_id v = k" "pp_product_name v = sr_product_name r0"
    "pp_total_quantity v = quantity_of (r0 # rest)"
    "pp_total_revenue v = revenue_of (r0 # rest)"
    "pp_total_cost v = cost_of (r0 # rest)"
    "pp_total_profit v = profit_of (r0 # rest)"
    unfolding v fold_add_to_product_profit sums_as_foldl
    by (simp_all add: new_product_profit_def k)
  then show ?thesis unfolding g by blast
qed

lemma profit_products_ids:
  "map pp_product_id
     (map (set_averages \<circ> snd)
        (fold (\<lambda>r. upsert (sr_product_id r) (new_product_profit r) (add_to_product_profit r))
           data []))
   = map fst (fold (\<lambda>r. upsert (sr_product_id r) (new_product_profit r)
                          (add_to_product_profit r)) data [])"
proof -
  have "\<forall>e \<in> set (fold (\<lambda>r. upsert (sr_product_id r) (new_product_profit r)
                              (add_to_product_profit r)) data []).
          pp_product_id (set_averages (snd e)) = fst e"
  proof
    fix e assume "e \<in> set (fold (\<lambda>r. upsert (sr_product_id r) (new_product_profit r)
                                     (add_to_product_profit r)) data [])"
    then have "(fst e, snd e) \<in> set (fold (\<lambda>r. upsert (sr_product_id r) (new_product_profit r)
                                     (add_to_product_profit r)) data [])" by simp
    from productProfits_entry[OF this] show "pp_product_id (set_averages (snd e)) = fst e"
      by (simp add: set_averages_fields)
  qed
  then show ?thesis by simp
qed

lemma profit_products_distinct:
  "distinct (map pp_product_id (profit_products (getProfitData s e rows)))"
  unfolding getProfitData_fields distinct_map_sort_descending profit_products_ids
  by (rule distinct_fold_upsert) simp

lemma profit_products_complete:
  "pp_product_id ` set (profit_products (getProfitData s e rows))
     = sr_product_id ` set (select_range s e rows)"
proof -
  have "pp_product_id ` set (profit_products (getProfitData s e rows))
      = set (map pp_product_id (map (set_averages \<circ> snd)
          (fold (\<lambda>r. upsert (sr_product_id r) (new_product_profit r) (add_to_product_profit r))
             (select_range s e rows) [])))"
    unfolding getProfitData_fields set_sort_descending by (simp add: image_image)
  also have "\<dots> = fst ` set (fold (\<lambda>r. upsert (sr_product_id r) (new_product_profit r)
                                     (add_to_product_profit r)) (select_range s e rows) [])"
    unfolding profit_products_ids by simp
  also have "\<dots> = sr_product_id ` set (select_range s e rows)"
    by (simp add: keys_fold_upsert)
  finally show ?thesis .
qed

lemma profit_product_group:
  assumes "p \<in> set (profit_products (getProfitData s e rows))"
  shows "(\<exists>r0 rest.
        filter (\<lambda>r. sr_product_id r = pp_product_id p) (select_range s e rows) = r0 # rest \<and>
        pp_product_name p = sr_product_name r0) \<and>
     pp_total_quantity p
       = quantity_of (filter (\<lambda>r. sr_product_id r = pp_product_id p) (select_range s e rows)) \<and>
     pp_total_revenue p
       = revenue_of (filter (\<lambda>r. sr_product_id r = pp_product_id p) (select_range s e rows)) \<and>
     pp_total_cost p
       = cost_of (filter (\<lambda>r. sr_product_id r = pp_product_id p) (select_range s e rows)) \<and>
     pp_total_profit p
       = profit_of (filter (\<lambda>r. sr_product_id r = pp_product_id p) (select_range s e rows)) \<and>
     pp_avg_sale_price p = js_div (pp_total_revenue p) (pp_total_quantity p) \<and>
     pp_avg_cost_price p = js_div (pp_total_cost p) (pp_total_quantity p)"
proof -
  let ?data = "select_range s e rows"
  from assms obtain k v where
    kv: "(k, v) \<in> set (fold (\<lambda>r. upsert (sr_product_id r) (new_product_profit r)
                                 (add_to_product_profit r)) ?data [])"
    and p: "p = set_averages v"
    unfolding getProfitData_fields set_sort_descending by auto
  from productProfits_entry[OF kv] show ?thesis
    unfolding p set_averages_fields by simp
qed

lemma prod_a_example:
  "getProfitData 0 10 prod_a_rows =
     \<lparr>totalProfit = Num 120, totalRevenue = Num 300, totalCost = Num 180,
      profit_products =
        [\<lparr>pp_product_id = Some 7, pp_product_name = ''ProdA'', pp_total_quantity = Num 3,
          pp_total_revenue = Num 300, pp_total_cost = Num 180, pp_total_profit = Num 120,
          pp_avg_sale_price = Num 100, pp_avg_cost_price = Num 60\<rparr>]\<rparr>"
  by (simp add: getProfitData_def select_range_def prod_a_rows_def sale_def profit_forEach_def
      new_product_profit_def add_to_product_profit_def set_averages_def sort_descending_def
      itemRevenue_def itemCost_def itemProfit_def js_eval)

subsection \<open>Whole amounts\<close>

lemma sum_abs_nonneg: "0 \<le> sum_list (map abs ns)" for ns :: "int list"
  by (induction ns) simp_all

lemma foldl_js_add_exact:
  assumes "list_all2 (\<lambda>x n. finite_value x = Some (of_int n)) xs ns"
    and "\<bar>a\<bar> + sum_list (map abs ns) < 2 ^ 53"
  shows "foldl js_add (Num (of_int a)) xs = Num (of_int (a + sum_list ns))"
  using assms
proof (induction xs ns arbitrary: a rule: list_all2_induct)
  case Nil
  then show ?case by simp
next
  case (Cons x xs n ns)
  have fin: "finite_value x = Some (of_int n)" by (rule Cons.hyps(1))
  then have nn: "x \<noteq> Not_a_number" by auto
  have bound: "\<bar>a + n\<bar> < 2 ^ 53"
    using Cons.prems sum_abs_nonneg[of ns] abs_triangle_ineq[of a n] by simp
  have step: "js_add (Num (of_int a)) x = Num (of_int (a + n))"
  proof (cases "a + n = 0")
    case True
    then have "(of_int a :: rat) + of_int n = 0" by (simp flip: of_int_add)
    moreover have "\<not> (sign_bit (Num (of_int a)) \<and> sign_bit x)"
    proof (cases "a < 0")
      case True
      with \<open>a + n = 0\<close> have "0 < n" by simp
      with fin have "\<not> sign_bit x" by (cases x) auto
      then show ?thesis by simp
    next
      case False
      then show ?thesis by simp
    qed
    ultimately show ?thesis using fin nn True
      by (simp add: js_add_def zero_of_sign_def)
  next
    case False
    then have "(of_int a :: rat) + of_int n \<noteq> 0"
      by (simp flip: of_int_add)
    then have "js_add (Num (of_int a)) x = to_double (of_int (a + n))"
      using fin nn by (simp add: js_add_def)
    with to_double_of_int[OF bound] show ?thesis by simp
  qed
  have "\<bar>a + n\<bar> + sum_list (map abs ns) < 2 ^ 53"
    using Cons.prems abs_triangle_ineq[of a n] by simp
  from Cons.IH[OF this] show ?case by (simp add: step add.assoc)
qed

lemma js_sum_exact:
  assumes "list_all2 (\<lambda>x n. finite_value x = Some (of_int n)) xs ns"
    and "sum_list (map abs ns) < 2 ^ 53"
  shows "js_sum xs = Num (of_int (sum_list ns))"
  using foldl_js_add_exact[OF assms(1), of 0] assms(2) by (simp add: js_sum_def)

lemma of_int_div_100: "100 dvd d \<Longrightarrow> (of_int d :: rat) / 100 = of_int (d div 100)"
  by (auto simp: dvd_def)

lemma abs_div_100: "100 dvd d \<Longrightarrow> 100 * \<bar>d div 100\<bar> = \<bar>d\<bar>" for d :: int
  by (auto simp: dvd_def abs_mult)

lemma Number_decimal_whole:
  assumes "100 dvd d" and "\<bar>d\<bar> < 100 * 2 ^ 53"
  shows "Number_decimal d = Num (of_int (d div 100))"
proof -
  from abs_div_100[OF assms(1)] assms(2) have "\<bar>d div 100\<bar> < 2 ^ 53" by simp
  from to_double_of_int[OF this] show ?thesis
    by (simp add: Number_decimal_def of_int_div_100[OF assms(1)])
qed

lemma Number_integer_exact: "\<bar>n\<bar> < 2 ^ 31 \<Longrightarrow> Number_integer n = Num (of_int n)"
proof -
  assume "\<bar>n\<bar> < 2 ^ 31"
  then have "\<bar>n\<bar> < 2 ^ 53" by simp
  from to_double_of_int[OF this] show ?thesis by (simp add: Number_integer_def)
qed

lemma itemRevenue_whole:
  assumes "100 dvd sr_total_price r" and "\<bar>sr_total_price r\<bar> < 100 * 2 ^ 53"
  shows "finite_value (itemRevenue r) = Some (of_int (sr_total_price r div 100))"
  by (simp add: itemRevenue_def Number_decimal_whole[OF assms])

lemma itemCost_whole:
  assumes "whole_amounts r" and "\<bar>cost_hundredths r * sr_quantity r\<bar> < 100 * 2 ^ 53"
  shows "finite_value (itemCost r)
     = Some (of_int (cost_hundredths r div 100 * sr_quantity r))"
proof -
  let ?c = "cost_hundredths r div 100"
  let ?q = "sr_quantity r"
  from assms(1) have d: "100 dvd cost_hundredths r" and f: "fits_decimal (cost_hundredths r)"
    and q: "\<bar>?q\<bar> < 2 ^ 31"
    by (simp_all add: whole_amounts_def)
  from f have "\<bar>cost_hundredths r\<bar> < 100 * 2 ^ 53" by (simp add: fits_decimal_def)
  from Number_decimal_whole[OF d this]
  have n: "Number_nullable (sr_cost_per_unit r) = Num (of_int ?c)"
    by (auto simp: Number_nullable_def cost_hundredths_def split: option.splits)
  have m: "itemCost r = js_mul (Num (of_int ?c)) (Num (of_int ?q))"
    by (simp add: itemCost_def n Number_integer_exact[OF q])
  have "cost_hundredths r * ?q = 100 * (?c * ?q)" using d by (auto simp: dvd_def)
  with assms(2) have b: "\<bar>?c * ?q\<bar> < 2 ^ 53" by simp
  show ?thesis
  proof (cases "?c * ?q = 0")
    case True
    then have "(of_int ?c :: rat) * of_int ?q = 0" by (simp flip: of_int_mult)
    then show ?thesis unfolding m using True
      by (simp add: js_mul_def zero_of_sign_def)
  next
    case False
    then have "(of_int ?c :: rat) * of_int ?q \<noteq> 0" by (simp flip: of_int_mult)
    then have "itemCost r = to_double (of_int (?c * ?q))"
      unfolding m by (simp add: js_mul_def)
    with to_double_of_int[OF b] show ?thesis by simp
  qed
qed

lemma amount_total_Cons:
  "amount_total (r # rs)
     = \<bar>sr_total_price r\<bar> + \<bar>cost_hundredths r * sr_quantity r\<bar> + amount_total rs"
  "amount_total [] = 0"
  by (simp_all add: amount_total_def)

lemma amount_total_nonneg: "0 \<le> amount_total rs"
  by (induction rs) (simp_all add: amount_total_Cons)

lemma whole_sums:
  assumes "\<forall>r \<in> set rs. whole_amounts r" and "amount_total rs < 100 * 2 ^ 53"
  shows "list_all2 (\<lambda>x n. finite_value x = Some (of_int n)) (map itemRevenue rs)
           (map (\<lambda>r. sr_total_price r div 100) rs) \<and>
         list_all2 (\<lambda>x n. finite_value x = Some (of_int n)) (map itemCost rs)
           (map (\<lambda>r. cost_hundredths r div 100 * sr_quantity r) rs) \<and>
         100 * (sum_list (map abs (map (\<lambda>r. sr_total_price r div 100) rs))
                + sum_list (map abs (map (\<lambda>r. cost_hundredths r div 100 * sr_quantity r) rs)))
           = amount_total rs \<and>
         exact_revenue rs = of_int (sum_list (map (\<lambda>r. sr_total_price r div 100) rs)) \<and>
         exact_cost rs
           = of_int (sum_list (map (\<lambda>r. cost_hundredths r div 100 * sr_quantity r) rs))"
  using assms
proof (induction rs)
  case Nil
  then show ?case by (simp add: amount_total_Cons exact_revenue_def exact_cost_def)
next
  case (Cons r rs)
  from Cons.prems have w: "whole_amounts r" and ws: "\<forall>r \<in> set rs. whole_amounts r" by simp_all
  from w have dp: "100 dvd sr_total_price r" and dc: "100 dvd cost_hundredths r"
    by (simp_all add: whole_amounts_def)
  from Cons.prems(2) amount_total_nonneg[of rs] abs_ge_zero[of "sr_total_price r"]
    abs_ge_zero[of "cost_hundredths r * sr_quantity r"]
  have bp: "\<bar>sr_total_price r\<bar> < 100 * 2 ^ 53"
    and bc: "\<bar>cost_hundredths r * sr_quantity r\<bar> < 100 * 2 ^ 53"
    and bs: "amount_total rs < 100 * 2 ^ 53"
    unfolding amount_total_Cons by linarith+
  note ih = Cons.IH[OF ws bs]
  have c: "cost_hundredths r * sr_quantity r = 100 * (cost_hundredths r div 100 * sr_quantity r)"
    using dc by (auto simp: dvd_def)
  have a: "100 * (\<bar>sr_total_price r div 100\<bar> + \<bar>cost_hundredths r div 100 * sr_quantity r\<bar>)
      = \<bar>sr_total_price r\<bar> + \<bar>cost_hundredths r * sr_quantity r\<bar>"
    using abs_div_100[OF dp] by (simp add: c abs_mult)
  have xc: "(case sr_cost_per_unit r of None \<Rightarrow> 0 | Some c \<Rightarrow> of_int c / 100)
      = (of_int (cost_hundredths r div 100) :: rat)"
    using of_int_div_100[OF dc] by (simp add: cost_hundredths_def split: option.splits)
  show ?case
    using ih itemRevenue_whole[OF dp bp] itemCost_whole[OF w bc] a
    by (simp add: amount_total_Cons exact_revenue_def exact_cost_def of_int_div_100[OF dp] xc
        algebra_simps)
qed

lemma whole_totals:
  assumes "\<forall>r \<in> set rs. whole_amounts r" and "amount_total rs < 100 * 2 ^ 53"
  shows "revenue_of rs = Num (exact_revenue rs)"
    and "cost_of rs = Num (exact_cost rs)"
    and "js_sub (revenue_of rs) (cost_of rs) = Num (exact_revenue rs - exact_cost rs)"
proof -
  let ?ps = "map (\<lambda>r. sr_total_price r div 100) rs"
  let ?cs = "map (\<lambda>r. cost_hundredths r div 100 * sr_quantity r) rs"
  note w = whole_sums[OF assms]
  from w assms(2) have b: "sum_list (map abs ?ps) + sum_list (map abs ?cs) < 2 ^ 53" by simp
  have n: "0 \<le> sum_list (map abs ?ps)" "0 \<le> sum_list (map abs ?cs)"
    by (rule sum_abs_nonneg)+
  from b n have bp: "sum_list (map abs ?ps) < 2 ^ 53" and bc: "sum_list (map abs ?cs) < 2 ^ 53"
    by simp_all
  from w have lp: "list_all2 (\<lambda>x n. finite_value x = Some (of_int n)) (map itemRevenue rs) ?ps"
    and lc: "list_all2 (\<lambda>x n. finite_value x = Some (of_int n)) (map itemCost rs) ?cs"
    and xr: "exact_revenue rs = of_int (sum_list ?ps)"
    and xc: "exact_cost rs = of_int (sum_list ?cs)"
    by simp_all
  show r: "revenue_of rs = Num (exact_revenue rs)"
    using js_sum_exact[OF lp bp] by (simp add: sums_as_foldl js_sum_def xr)
  show c: "cost_of rs = Num (exact_cost rs)"
    using js_sum_exact[OF lc bc] by (simp add: sums_as_foldl js_sum_def xc)
  have "\<bar>sum_list ?ps\<bar> \<le> sum_list (map abs ?ps)" "\<bar>sum_list ?cs\<bar> \<le> sum_list (map abs ?cs)"
    by (rule sum_list_abs)+
  with b have d: "\<bar>sum_list ?ps - sum_list ?cs\<bar> < 2 ^ 53" by simp
  have "js_sub (Num (of_int (sum_list ?ps))) (Num (of_int (sum_list ?cs)))
      = Num (of_int (sum_list ?ps - sum_list ?cs))"
    using to_double_of_int[OF d] by (simp add: js_sub_Num)
  then show "js_sub (revenue_of rs) (cost_of rs) = Num (exact_revenue rs - exact_cost rs)"
    unfolding r c xr xc by simp
qed

text \<open>
  C6, as the code has it. For any table and date range, the profits aggregation over the
  records in range returns totalRevenue as the sum of their total prices, totalCost as
  the sum of cost per unit times quantity, and totalProfit as their difference, every
  number being a double and every sum the running total over the rows in their order.
  The products of the result are the product ids of the records in range, each once;
  every product carries the name of the first record of its group and the group's summed
  quantity, revenue, cost and profit, and its average sale price and average cost price
  are revenue and cost divided by the summed quantity, in the arithmetic of doubles
  (which yields NaN or an infinity for a summed quantity of 0). When the amounts of the
  records in range are whole numbers and their absolute total is below \<open>2 ^ 53\<close>,
  totalRevenue, totalCost and totalProfit are the exact sums and their exact difference.
  On the two records of product A the result is quantity 3, revenue 300, total cost 180,
  total profit 120, average sale price 100 and average cost price 60.
\<close>

theorem profit_totals_and_averages:
  "totalRevenue (getProfitData s e rows) = revenue_of (select_range s e rows) \<and>
   totalCost (getProfitData s e rows) = cost_of (select_range s e rows) \<and>
   totalProfit (getProfitData s e rows)
     = js_sub (totalRevenue (getProfitData s e rows)) (totalCost (getProfitData s e rows)) \<and>
   distinct (map pp_product_id (profit_products (getProfitData s e rows))) \<and>
   pp_product_id ` set (profit_products (getProfitData s e rows))
     = sr_product_id ` set (select_range s e rows) \<and>
   (\<forall>p \<in> set (profit_products (getProfitData s e rows)).
      (\<exists>r0 rest.
         filter (\<lambda>r. sr_product_id r = pp_product_id p) (select_range s e rows) = r0 # rest \<and>
         pp_product_name p = sr_product_name r0) \<and>
      pp_total_quantity p
        = quantity_of (filter (\<lambda>r. sr_product_id r = pp_product_id p) (select_range s e rows)) \<and>
      pp_total_revenue p
        = revenue_of (filter (\<lambda>r. sr_product_id r = pp_product_id p) (select_range s e rows)) \<and>
      pp_total_cost p
        = cost_of (filter (\<lambda>r. sr_product_id r = pp_product_id p) (select_range s e rows)) \<and>
      pp_total_profit p
        = profit_of (filter (\<lambda>r. sr_product_id r = pp_product_id p) (select_range s e rows)) \<and>
      pp_avg_sale_price p = js_div (pp_total_revenue p) (pp_total_quantity p) \<and>
      pp_avg_cost_price p = js_div (pp_total_cost p) (pp_total_quantity p)) \<and>
   ((\<forall>r \<in> set (select_range s e rows). whole_amounts r) \<and>
    amount_total (select_range s e rows) < 100 * 2 ^ 53 \<longrightarrow>
      totalRevenue (getProfitData s e rows) = Num (exact_revenue (select_range s e rows)) \<and>
      totalCost (getProfitData s e rows) = Num (exact_cost (select_range s e rows)) \<and>
      totalProfit (getProfitData s e rows)
        = Num (exact_revenue (select_range s e rows) - exact_cost (select_range s e rows))) \<and>
   getProfitData 0 10 prod_a_rows =
     \<lparr>totalProfit = Num 120, totalRevenue = Num 300, totalCost = Num 180,
      profit_products =
        [\<lparr>pp_product_id = Some 7, pp_product_name = ''ProdA'', pp_total_quantity = Num 3,
          pp_total_revenue = Num 300, pp_total_cost = Num 180, pp_total_profit = Num 120,
          pp_avg_sale_price = Num 100, pp_avg_cost_price = Num 60\<rparr>]\<rparr>"
proof (intro conjI ballI impI)
  show "totalRevenue (getProfitData s e rows) = revenue_of (select_range s e rows)"
    and "totalCost (getProfitData s e rows) = cost_of (select_range s e rows)"
    and "totalProfit (getProfitData s e rows)
      = js_sub (totalRevenue (getProfitData s e rows)) (totalCost (getProfitData s e rows))"
    by (simp_all add: getProfitData_fields)
  show "distinct (map pp_product_id (profit_products (getProfitData s e rows)))"
    by (rule profit_products_distinct)
  show "pp_product_id ` set (profit_products (getProfitData s e rows))
      = sr_product_id ` set (select_range s e rows)"
    by (rule profit_products_complete)
  show "getProfitData 0 10 prod_a_rows =
     \<lparr>totalProfit = Num 120, totalRevenue = Num 300, totalCost = Num 180,
      profit_products =
        [\<lparr>pp_product_id = Some 7, pp_product_name = ''ProdA'', pp_total_quantity = Num 3,
          pp_total_revenue = Num 300, pp_total_cost = Num 180, pp_total_profit = Num 120,
          pp_avg_sale_price = Num 100, pp_avg_cost_price = Num 60\<rparr>]\<rparr>"
    by (rule prod_a_example)
next
  assume "(\<forall>r \<in> set (select_range s e rows). whole_amounts r) \<and>
    amount_total (select_range s e rows) < 100 * 2 ^ 53"
  then have w: "\<forall>r \<in> set (select_range s e rows). whole_amounts r"
    and b: "amount_total (select_range s e rows) < 100 * 2 ^ 53"
    by simp_all
  note x = whole_totals[OF w b]
  show "totalRevenue (getProfitData s e rows) = Num (exact_revenue (select_range s e rows))"
    and "totalCost (getProfitData s e rows) = Num (exact_cost (select_range s e rows))"
    and "totalProfit (getProfitData s e rows)
        = Num (exact_revenue (select_range s e rows) - exact_cost (select_range s e rows))"
    unfolding getProfitData_fields by (rule x)+
next
  fix p assume p: "p \<in> set (profit_products (getProfitData s e rows))"
  note g = profit_product_group[OF p]
  from g show "\<exists>r0 rest.
         filter (\<lambda>r. sr_product_id r = pp_product_id p) (select_range s e rows) = r0 # rest \<and>
         pp_product_name p = sr_product_name r0" by blast
  from g show "pp_total_quantity p
        = quantity_of (filter (\<lambda>r. sr_product_id r = pp_product_id p) (select_range s e rows))"
    by blast
  from g show "pp_total_revenue p
        = revenue_of (filter (\<lambda>r. sr_product_id r = pp_product_id p) (select_range s e rows))"
    by blast
  from g show "pp_total_cost p
        = cost_of (filter (\<lambda>r. sr_product_id r = pp_product_id p) (select_range s e rows))"
    by blast
  from g show "pp_total_profit p
        = profit_of (filter (\<lambda>r. sr_product_id r = pp_product_id p) (select_range s e rows))"
    by blast
  from g show "pp_avg_sale_price p = js_div (pp_total_revenue p) (pp_total_quantity p)"
    by blast
  from g show "pp_avg_cost_price p = js_div (pp_total_cost p) (pp_total_quantity p)"
    by blast
qed

theorem profit_totals_and_averages_witness:
  "revenue_of (select_range 0 10 prod_a_rows) = Num 300 \<and>
   cost_of (select_range 0 10 prod_a_rows) = Num 180 \<and>
   totalRevenue (getProfitData 0 10 prod_a_rows) = Num 300 \<and>
   totalCost (getProfitData 0 10 prod_a_rows) = Num 180 \<and>
   totalProfit (getProfitData 0 10 prod_a_rows) = Num 120 \<and>
   map pp_product_id (profit_products (getProfitData 0 10 prod_a_rows)) = [Some 7] \<and>
   sr_product_id ` set (select_range 0 10 prod_a_rows) = {Some 7} \<and>
   quantity_of (filter (\<lambda>r. sr_product_id r = Some 7) (select_range 0 10 prod_a_rows)) = Num 3 \<and>
   map pp_avg_sale_price (profit_products (getProfitData 0 10 prod_a_rows)) = [Num 100] \<and>
   map pp_avg_cost_price (profit_products (getProfitData 0 10 prod_a_rows)) = [Num 60] \<and>
   list_all whole_amounts (select_range 0 10 prod_a_rows) \<and>
   amount_total (select_range 0 10 prod_a_rows) < 100 * 2 ^ 53 \<and>
   exact_revenue (select_range 0 10 prod_a_rows) = 300 \<and>
   exact_cost (select_range 0 10 prod_a_rows) = 180 \<and>
   totalProfit (getProfitData 0 10 prod_a_rows)
     = Num (exact_revenue (select_range 0 10 prod_a_rows)
            - exact_cost (select_range 0 10 prod_a_rows))"
proof -
  have w: "\<forall>r \<in> set (select_range 0 10 prod_a_rows). whole_amounts r"
    by (simp add: select_range_def prod_a_rows_def sale_def whole_amounts_def
        cost_hundredths_def fits_decimal_def)
  have b: "amount_total (select_range 0 10 prod_a_rows) < 100 * 2 ^ 53"
    by (simp add: select_range_def prod_a_rows_def sale_def amount_total_def
        cost_hundredths_def)
  have x: "exact_revenue (select_range 0 10 prod_a_rows) = 300"
    "exact_cost (select_range 0 10 prod_a_rows) = 180"
    by (simp_all add: exact_revenue_def exact_cost_def select_range_def prod_a_rows_def
        sale_def)
  have r: "revenue_of (select_range 0 10 prod_a_rows) = Num 300"
    by (simp add: revenue_of_def js_sum_def select_range_def prod_a_rows_def sale_def js_eval)
  have c: "cost_of (select_range 0 10 prod_a_rows) = Num 180"
    by (simp add: cost_of_def js_sum_def select_range_def prod_a_rows_def sale_def js_eval)
  have i: "sr_product_id ` set (select_range 0 10 prod_a_rows) = {Some 7}"
    by (simp add: select_range_def prod_a_rows_def sale_def)
  let ?p = "\<lparr>pp_product_id = Some 7, pp_product_name = ''ProdA'', pp_total_quantity = Num 3,
          pp_total_revenue = Num 300, pp_total_cost = Num 180, pp_total_profit = Num 120,
          pp_avg_sale_price = Num 100, pp_avg_cost_price = Num 60\<rparr>"
  note t = profit_totals_and_averages[of 0 10 prod_a_rows]
  have g: "getProfitData 0 10 prod_a_rows =
     \<lparr>totalProfit = Num 120, totalRevenue = Num 300, totalCost = Num 180,
      profit_products = [?p]\<rparr>"
    using t by (elim conjE)
  have "?p \<in> set (profit_products (getProfitData 0 10 prod_a_rows))"
    by (simp add: g)
  with t have "pp_total_quantity ?p
      = quantity_of (filter (\<lambda>r. sr_product_id r = pp_product_id ?p)
          (select_range 0 10 prod_a_rows))"
    by blast
  then have q: "quantity_of (filter (\<lambda>r. sr_product_id r = Some 7)
      (select_range 0 10 prod_a_rows)) = Num 3"
    by simp
  from t w b
  have e: "totalProfit (getProfitData 0 10 prod_a_rows)
     = Num (exact_revenue (select_range 0 10 prod_a_rows)
            - exact_cost (select_range 0 10 prod_a_rows))"
    by blast
  from w have l: "list_all whole_amounts (select_range 0 10 prod_a_rows)"
    by (simp only: list_all_iff)
  from r c i q l b x e show ?thesis by (simp add: g)
qed

text \<open>
  C6 as stated fails, in two ways. A sales record may have quantity 0 (the column has no
  check and the code no guard): its product then has summed quantity 0, and its averages
  are NaN. And the totals are sums of doubles: for one record of 3 units at a cost of
  0.10 and a total price of 0.30, the sum of cost per unit times quantity is 0.30 and
  the code's totalCost is 0.30000000000000004; the revenue equals the cost and the
  code's totalProfit is not 0.
\<close>

theorem zero_quantity_has_no_average:
  "map pp_total_quantity (profit_products (getProfitData 0 10 [sale 7 ''ProdA'' 0 10000 6000]))
     = [Num 0] \<and>
   map pp_avg_sale_price (profit_products (getProfitData 0 10 [sale 7 ''ProdA'' 0 10000 6000]))
     = [Not_a_number] \<and>
   map pp_avg_cost_price (profit_products (getProfitData 0 10 [sale 7 ''ProdA'' 0 10000 6000]))
     = [Not_a_number] \<and>
   exact_revenue (select_range 0 10 [sale 7 ''ProdA'' 3 10 10]) = 3 / 10 \<and>
   exact_cost (select_range 0 10 [sale 7 ''ProdA'' 3 10 10]) = 3 / 10 \<and>
   totalRevenue (getProfitData 0 10 [sale 7 ''ProdA'' 3 10 10])
     = Num (5404319552844595 / 18014398509481984) \<and>
   totalCost (getProfitData 0 10 [sale 7 ''ProdA'' 3 10 10])
     = Num (1351079888211149 / 4503599627370496) \<and>
   totalCost (getProfitData 0 10 [sale 7 ''ProdA'' 3 10 10]) \<noteq> to_double (3 / 10) \<and>
   totalProfit (getProfitData 0 10 [sale 7 ''ProdA'' 3 10 10])
     = Num (- (1 / 18014398509481984))"
proof -
  have z: "getProfitData 0 10 [sale 7 ''ProdA'' 0 10000 6000] =
     \<lparr>totalProfit = Num 0, totalRevenue = Num 0, totalCost = Num 0,
      profit_products =
        [\<lparr>pp_product_id = Some 7, pp_product_name = ''ProdA'', pp_total_quantity = Num 0,
          pp_total_revenue = Num 0, pp_total_cost = Num 0, pp_total_profit = Num 0,
          pp_avg_sale_price = Not_a_number, pp_avg_cost_price = Not_a_number\<rparr>]\<rparr>"
    by (simp add: getProfitData_def select_range_def sale_def profit_forEach_def
        new_product_profit_def add_to_product_profit_def set_averages_def sort_descending_def
        itemRevenue_def itemCost_def itemProfit_def js_eval js_div_def)
  have x: "exact_revenue (select_range 0 10 [sale 7 ''ProdA'' 3 10 10]) = 3 / 10"
    "exact_cost (select_range 0 10 [sale 7 ''ProdA'' 3 10 10]) = 3 / 10"
    by (simp_all add: exact_revenue_def exact_cost_def select_range_def sale_def)
  have r: "revenue_of (select_range 0 10 [sale 7 ''ProdA'' 3 10 10])
      = Num (5404319552844595 / 18014398509481984)"
    by (simp add: revenue_of_def js_sum_def select_range_def sale_def js_eval
        double_three_tenths double_three_tenths_again)
  have c: "cost_of (select_range 0 10 [sale 7 ''ProdA'' 3 10 10])
      = Num (1351079888211149 / 4503599627370496)"
    by (simp add: cost_of_def js_sum_def select_range_def sale_def js_eval
        double_tenth double_three_times_tenth double_three_times_tenth_again)
  have d: "js_sub (Num (5404319552844595 / 18014398509481984))
             (Num (1351079888211149 / 4503599627370496))
           = Num (- (1 / 18014398509481984))"
    by (simp add: js_sub_Num double_small_difference)
  show ?thesis
    unfolding getProfitData_fields r c d z double_three_tenths using x by simp
qed

subsection \<open>Product sales\<close>

lemma fold_product_sale:
  "fold (\<lambda>record existing. (js_add (fst existing) (Number_integer (sr_quantity record)),
                               js_add (snd existing) (Number_decimal (sr_total_price record))))
     rs (q, v)
     = (foldl js_add q (map (\<lambda>r. Number_integer (sr_quantity r)) rs),
        foldl js_add v (map (\<lambda>r. Number_decimal (sr_total_price r)) rs))"
  by (induction rs arbitrary: q v) simp_all

lemma productMap_entry:
  assumes "(k, v) \<in> set (productMap records)"
  shows "v = (quantity_of (filter (\<lambda>r. sr_product_name r = k) records),
              revenue_of (filter (\<lambda>r. sr_product_name r = k) records))"
proof -
  from assms
  have "(k, v) \<in> set (fold (\<lambda>r. upsert (sr_product_name r) ((\<lambda>_. (Num 0, Num 0)) r)
           ((\<lambda>record existing. (js_add (fst existing) (Number_integer (sr_quantity record)),
               js_add (snd existing) (Number_decimal (sr_total_price record)))) r)) records [])"
    by (simp add: productMap_def)
  from group_of_entry[OF this] obtain r0 rest where
    "filter (\<lambda>r. sr_product_name r = k) records = r0 # rest"
    "v = fold (\<lambda>record existing. (js_add (fst existing) (Number_integer (sr_quantity record)),
                 js_add (snd existing) (Number_decimal (sr_total_price record))))
           (r0 # rest) (Num 0, Num 0)"
    by blast
  then show ?thesis
    by (simp only: fold_product_sale) (simp add: quantity_of_def revenue_of_def js_sum_def)
qed

lemma productMap_keys:
  "distinct (map fst (productMap records))"
  "fst ` set (productMap records) = sr_product_name ` set records"
proof -
  show "distinct (map fst (productMap records))"
    unfolding productMap_def
    by (rule distinct_fold_upsert[where key = sr_product_name and init = "\<lambda>_. (Num 0, Num 0)"
          and upd = "\<lambda>record existing.
               (js_add (fst existing) (Number_integer (sr_quantity record)),
                js_add (snd existing) (Number_decimal (sr_total_price record)))"]) simp
  show "fst ` set (productMap records) = sr_product_name ` set records"
    unfolding productMap_def
    using keys_fold_upsert[where key = sr_product_name and init = "\<lambda>_. (Num 0, Num 0)"
          and upd = "\<lambda>record existing.
               (js_add (fst existing) (Number_integer (sr_quantity record)),
                js_add (snd existing) (Number_decimal (sr_total_price record)))"
          and rs = records and acc = "[]"]
    by simp
qed

lemma ProductSales_unfold:
  "ProductSales s e rows
     = sort_descending sale_revenue
         (map (\<lambda>e. \<lparr>sale_name = fst e, sale_quantity = fst (snd e), sale_revenue = snd (snd e)\<rparr>)
            (productMap (select_range s e rows)))"
  by (simp add: ProductSales_def Let_def productMap_def sort_descending_def)

lemma revenue_of_on_grid:
  assumes "\<forall>r \<in> set rs. fits_decimal (sr_total_price r)"
  shows "on_grid (revenue_of rs)"
  unfolding revenue_of_def
proof (rule on_grid_js_sum, rule ballI)
  fix x assume "x \<in> set (map (\<lambda>r. Number_decimal (sr_total_price r)) rs)"
  then obtain r where "r \<in> set rs" "x = Number_decimal (sr_total_price r)" by auto
  with assms Number_decimal_finite show "on_grid x \<and> finite_value x \<noteq> None" by blast
qed

text \<open>
  C8, as the code has it. For any table and day, the product-sales card groups the
  records in range by product name (the product id is not read): the summaries have
  pairwise different names, there is one for every name that occurs, each carries the
  summed quantity and the summed revenue of the records of its name, the sums being the
  running totals of doubles over the rows in their order, and, the total prices being
  within \<^verbatim>\<open>DECIMAL(10, 2)\<close>, they are in descending order of that revenue.
\<close>

theorem product_sales_by_name_sorted_by_revenue:
  "distinct (map sale_name (ProductSales s e rows)) \<and>
   sale_name ` set (ProductSales s e rows) = sr_product_name ` set (select_range s e rows) \<and>
   (\<forall>p \<in> set (ProductSales s e rows).
      sale_quantity p
        = quantity_of (filter (\<lambda>r. sr_product_name r = sale_name p) (select_range s e rows)) \<and>
      sale_revenue p
        = revenue_of (filter (\<lambda>r. sr_product_name r = sale_name p) (select_range s e rows))) \<and>
   ((\<forall>r \<in> set (select_range s e rows). fits_decimal (sr_total_price r)) \<longrightarrow>
      sorted_wrt (\<lambda>a b. js_le (sale_revenue b) (sale_revenue a)) (ProductSales s e rows))"
proof (intro conjI ballI impI)
  let ?recs = "select_range s e rows"
  let ?mk = "\<lambda>e. \<lparr>sale_name = fst e, sale_quantity = fst (snd e), sale_revenue = snd (snd e)\<rparr>"
  have names: "map sale_name (map ?mk (productMap ?recs)) = map fst (productMap ?recs)"
    by simp
  show "distinct (map sale_name (ProductSales s e rows))"
    unfolding ProductSales_unfold distinct_map_sort_descending names by (rule productMap_keys)
  have "sale_name ` set (ProductSales s e rows) = fst ` set (productMap ?recs)"
    unfolding ProductSales_unfold set_sort_descending by (simp add: image_image)
  then show "sale_name ` set (ProductSales s e rows) = sr_product_name ` set ?recs"
    by (simp add: productMap_keys)
  have entry: "sale_quantity p = quantity_of (filter (\<lambda>r. sr_product_name r = sale_name p) ?recs) \<and>
      sale_revenue p = revenue_of (filter (\<lambda>r. sr_product_name r = sale_name p) ?recs)"
    if "p \<in> set (map ?mk (productMap ?recs))" for p
  proof -
    from that obtain k v where kv: "(k, v) \<in> set (productMap ?recs)" and p: "p = ?mk (k, v)"
      by auto
    from productMap_entry[OF kv] p show ?thesis by simp
  qed
  {
    fix p assume "p \<in> set (ProductSales s e rows)"
    then have "p \<in> set (map ?mk (productMap ?recs))"
      unfolding ProductSales_unfold set_sort_descending .
    from entry[OF this]
    show "sale_quantity p = quantity_of (filter (\<lambda>r. sr_product_name r = sale_name p) ?recs)"
      and "sale_revenue p = revenue_of (filter (\<lambda>r. sr_product_name r = sale_name p) ?recs)"
      by simp_all
  }
  assume fits: "\<forall>r \<in> set ?recs. fits_decimal (sr_total_price r)"
  have "\<forall>p \<in> set (map ?mk (productMap ?recs)). on_grid (sale_revenue p)"
  proof
    fix p assume "p \<in> set (map ?mk (productMap ?recs))"
    from entry[OF this]
    have "sale_revenue p = revenue_of (filter (\<lambda>r. sr_product_name r = sale_name p) ?recs)"
      by simp
    moreover have "on_grid (revenue_of (filter (\<lambda>r. sr_product_name r = sale_name p) ?recs))"
      by (rule revenue_of_on_grid) (use fits in simp)
    ultimately show "on_grid (sale_revenue p)" by simp
  qed
  then show "sorted_wrt (\<lambda>a b. js_le (sale_revenue b) (sale_revenue a)) (ProductSales s e rows)"
    unfolding ProductSales_unfold by (rule sorted_sort_descending)
qed

lemma rounding_example:
  "ProductSales 0 10 rounding_rows
     = [\<lparr>sale_name = ''A'', sale_quantity = Num 2,
         sale_revenue = Num (1351079888211149 / 4503599627370496)\<rparr>,
        \<lparr>sale_name = ''B'', sale_quantity = Num 1,
         sale_revenue = Num (5404319552844595 / 18014398509481984)\<rparr>,
        \<lparr>sale_name = ''C'', sale_quantity = Num 1,
         sale_revenue = Num (5404319552844595 / 18014398509481984)\<rparr>]"
  by (simp add: ProductSales_def productMap_def select_range_def rounding_rows_def sale_def
      sort_descending_def js_eval double_tenth double_fifth double_three_tenths
      double_tenth_again double_three_tenths_again double_three_times_tenth
      double_three_times_tenth_again double_small_difference double_small_excess)

theorem product_sales_by_name_sorted_by_revenue_witness:
  "list_all (\<lambda>r. fits_decimal (sr_total_price r)) (select_range 0 10 rounding_rows) \<and>
   ProductSales 0 10 rounding_rows
     = [\<lparr>sale_name = ''A'', sale_quantity = Num 2,
         sale_revenue = Num (1351079888211149 / 4503599627370496)\<rparr>,
        \<lparr>sale_name = ''B'', sale_quantity = Num 1,
         sale_revenue = Num (5404319552844595 / 18014398509481984)\<rparr>,
        \<lparr>sale_name = ''C'', sale_quantity = Num 1,
         sale_revenue = Num (5404319552844595 / 18014398509481984)\<rparr>] \<and>
   sorted_wrt (\<lambda>a b. js_le (sale_revenue b) (sale_revenue a)) (ProductSales 0 10 rounding_rows) \<and>
   revenue_of (filter (\<lambda>r. sr_product_name r = ''A'') (select_range 0 10 rounding_rows))
     = Num (1351079888211149 / 4503599627370496)"
proof -
  let ?a = "\<lparr>sale_name = ''A'', sale_quantity = Num 2,
         sale_revenue = Num (1351079888211149 / 4503599627370496)\<rparr>"
  have f: "\<forall>r \<in> set (select_range 0 10 rounding_rows). fits_decimal (sr_total_price r)"
    by (simp add: select_range_def rounding_rows_def sale_def fits_decimal_def)
  note t = product_sales_by_name_sorted_by_revenue[of 0 10 rounding_rows]
  from t f
  have s: "sorted_wrt (\<lambda>a b. js_le (sale_revenue b) (sale_revenue a))
             (ProductSales 0 10 rounding_rows)"
    by blast
  have "?a \<in> set (ProductSales 0 10 rounding_rows)"
    by (simp add: rounding_example)
  with t have "sale_revenue ?a
      = revenue_of (filter (\<lambda>r. sr_product_name r = sale_name ?a)
          (select_range 0 10 rounding_rows))"
    by blast
  then have r: "revenue_of (filter (\<lambda>r. sr_product_name r = ''A'')
      (select_range 0 10 rounding_rows)) = Num (1351079888211149 / 4503599627370496)"
    by simp
  from f have l: "list_all (\<lambda>r. fits_decimal (sr_total_price r))
      (select_range 0 10 rounding_rows)"
    by (simp only: list_all_iff)
  from l s r rounding_example show ?thesis by blast
qed

text \<open>
  C8 as stated fails: two records with different product ids, both present, and the same
  product name end in one summary.
\<close>

theorem different_products_of_one_name_are_merged:
  "sr_product_id (sale 7 ''Shirt'' 2 10000 6000) = Some 7 \<and>
   sr_product_id (sale 8 ''Shirt'' 1 10000 6000) = Some 8 \<and>
   ProductSales 0 10 [sale 7 ''Shirt'' 2 10000 6000, sale 8 ''Shirt'' 1 10000 6000]
     = [\<lparr>sale_name = ''Shirt'', sale_quantity = Num 3, sale_revenue = Num 300\<rparr>]"
  by (simp add: ProductSales_def productMap_def select_range_def sale_def sort_descending_def
      js_eval)

subsection \<open>Trending\<close>

lemma two_product_example:
  "map ps_product_name (trending_view By_quantity 0 10 two_product_rows) = [''P2'', ''P1'']"
  "map ps_product_name (trending_view By_revenue 0 10 two_product_rows) = [''P1'', ''P2'']"
  "map ps_total_quantity (getTrendingProducts 0 10 two_product_rows) = [Num 10, Num 15]"
  "map ps_total_revenue (getTrendingProducts 0 10 two_product_rows) = [Num 1000, Num 800]"
  by (simp_all add: trending_view_def renderTable_def getTrendingProducts_def productStats_def
      select_range_def two_product_rows_def sale_def new_product_stats_def
      add_to_product_stats_def sort_descending_def js_eval)

text \<open>
  C7 at a failing input. Twenty-one products are in range and product 121 sold most (21
  units). \<^verbatim>\<open>getTrendingProducts\<close> cuts the summaries to the first twenty in the order
  the products were first met, and only then does \<^verbatim>\<open>renderTable\<close> sort: the list shown
  ranks products 120 down to 101 and product 121 is not in it.
\<close>

theorem top_seller_cut_before_sorting:
  "map ps_product_id (trending_view By_quantity 0 10 trending_rows)
     = [Some 120, Some 119, Some 118, Some 117, Some 116, Some 115, Some 114, Some 113, Some 112, Some 111, Some 110,
         Some 109, Some 108, Some 107, Some 106, Some 105, Some 104, Some 103, Some 102, Some 101] \<and>
   map ps_total_quantity (trending_view By_quantity 0 10 trending_rows)
     = [Num 20, Num 19, Num 18, Num 17, Num 16, Num 15, Num 14, Num 13, Num 12, Num 11, Num 10,
        Num 9, Num 8, Num 7, Num 6, Num 5, Num 4, Num 3, Num 2, Num 1] \<and>
   map (\<lambda>p. (ps_product_id p, ps_total_quantity p))
       (map snd (productStats (select_range 0 10 trending_rows)))
     = map (\<lambda>k. (Some k, Num (of_int (int k - 100)))) [101..<122]"
  by (simp add: trending_view_def renderTable_def getTrendingProducts_def productStats_def
      select_range_def trending_rows_def sale_def new_product_stats_def
      add_to_product_stats_def sort_descending_def js_eval)

end
